theory Spec2Isabelle
  imports Complex_Main "HOL-Library.AList"
begin

section \<open>Python primitives used by the font sprite sheet generator\<close>

text \<open>
  Exceptions are values. \<open>ValueError\<close> and \<open>ZeroDivisionError\<close> are the two exceptions the
  script and the interpreter raise themselves; \<open>LibError\<close> stands for any other
  \<open>Exception\<close> coming out of Pillow or the operating system (an unreadable font file, a
  glyph that cannot be rendered, a directory that cannot be created).
\<close>

datatype error = ValueError string | ZeroDivisionError | LibError string

text \<open>What the script prints besides its progress lines: its three warnings.\<close>

datatype message =
    WarnFontNotFound string
  | WarnLoadSize int error
  | WarnRender char error

text \<open>
  Python integers are unbounded: \<open>int\<close>. A Python float is idealised as the exact real it
  approximates: \<open>a / b\<close> is the exact quotient, \<open>math.ceil\<close> its ceiling (what the float
  computation gives for integer operands below \<open>2 ^ 53\<close>), and \<open>round(q, n)\<close> rounds the
  exact value half-to-even at \<open>n\<close> decimal digits, as \<open>round\<close> does on the exact value of a
  float.
  \<open>//\<close> and \<open>%\<close> on integers are floor division and its remainder, as \<open>div\<close> and \<open>mod\<close>
  on \<open>int\<close> are; all three raise on a zero divisor.
\<close>

definition py_truediv :: "int \<Rightarrow> int \<Rightarrow> error + real" where
  "py_truediv a b = (if b = 0 then Inl ZeroDivisionError else Inr (of_int a / of_int b))"

definition py_floordiv :: "int \<Rightarrow> int \<Rightarrow> error + int" where
  "py_floordiv a b = (if b = 0 then Inl ZeroDivisionError else Inr (a div b))"

definition py_mod :: "int \<Rightarrow> int \<Rightarrow> error + int" where
  "py_mod a b = (if b = 0 then Inl ZeroDivisionError else Inr (a mod b))"

definition math_ceil :: "real \<Rightarrow> int" where
  "math_ceil q = \<lceil>q\<rceil>"

definition round_half_even :: "real \<Rightarrow> int" where
  "round_half_even q =
     (let f = \<lfloor>q\<rfloor>; d = q - of_int f
      in if d < 1 / 2 then f
         else if 1 / 2 < d then f + 1
         else if even f then f else f + 1)"

definition py_round :: "real \<Rightarrow> nat \<Rightarrow> real" where
  "py_round q ndigits = of_int (round_half_even (q * 10 ^ ndigits)) / 10 ^ ndigits"

text \<open>\<open>range(start, stop, -1)\<close>: \<open>start, start - 1, ...\<close> while greater than \<open>stop\<close>.\<close>

function range_down :: "int \<Rightarrow> int \<Rightarrow> int list" where
  "range_down start stop = (if stop < start then start # range_down (start - 1) stop else [])"
  by pat_completeness auto
termination
  by (relation "measure (\<lambda>(start, stop). nat (start - stop))") auto

declare range_down.simps [simp del]

text \<open>
  Strings are lists of 8-bit characters, one list element per Python character, so the
  model covers character sets and names within that alphabet. \<open>str.lower\<close> acts on the
  ASCII capitals.
\<close>

definition char_lower :: "char \<Rightarrow> char" where
  "char_lower c =
     (let n = (of_char c :: nat)
      in if 65 \<le> n \<and> n \<le> 90 then char_of (n + 32) else c)"

definition str_lower :: "string \<Rightarrow> string" where
  "str_lower s = map char_lower s"

definition str_replace_char :: "char \<Rightarrow> char \<Rightarrow> string \<Rightarrow> string" where
  "str_replace_char old new s = map (\<lambda>c. if c = old then new else c) s"

fun nat_digits :: "nat \<Rightarrow> string" where
  "nat_digits n =
     (if n < 10 then [char_of (48 + n)]
      else nat_digits (n div 10) @ [char_of (48 + n mod 10)])"

declare nat_digits.simps [simp del]

definition str_int :: "int \<Rightarrow> string" where
  "str_int i = (if i < 0 then CHR ''-'' # nat_digits (nat (- i)) else nat_digits (nat i))"

text \<open>\<open>os.path.join\<close> of two components on a POSIX system.\<close>

definition os_path_join :: "string \<Rightarrow> string \<Rightarrow> string" where
  "os_path_join a b =
     (if b \<noteq> [] \<and> hd b = CHR ''/'' then b
      else if a = [] \<or> last a = CHR ''/'' then a @ b
      else a @ ''/'' @ b)"

section \<open>Fonts and the environment\<close>

text \<open>
  A loaded font is either a FreeType font opened from a path at a size, or Pillow's
  built-in default font. \<open>find_system_font\<close> returns a path string or, on the fallback,
  a font object; \<open>calculate_optimal_font_size\<close> tells the two apart with
  \<open>isinstance(font_path, str)\<close>.
\<close>

datatype font = FreeTypeFont string int | DefaultFont

datatype font_handle = PathStr string | FontObj font

text \<open>
  Everything the script asks of the file system and of Pillow. \<open>None\<close> in an
  \<open>error option\<close> means the call returned normally. A failing \<open>draw.text\<close> is taken to
  leave the canvas as it was.
\<close>

record env =
  path_exists :: "string \<Rightarrow> bool"
  load_default_fails :: "error option"
  truetype_fails :: "string \<Rightarrow> int \<Rightarrow> error option"
  textbbox :: "font \<Rightarrow> char \<Rightarrow> error + (int \<times> int \<times> int \<times> int)"
  draw_text_fails :: "font \<Rightarrow> int \<times> int \<Rightarrow> char \<Rightarrow> error option"
  mkdir_fails :: "string \<Rightarrow> error option"
  save_fails :: "string \<Rightarrow> error option"
  open_fails :: "string \<Rightarrow> error option"

definition ImageFont_load_default :: "env \<Rightarrow> error + font" where
  "ImageFont_load_default e =
     (case load_default_fails e of Some err \<Rightarrow> Inl err | None \<Rightarrow> Inr DefaultFont)"

definition ImageFont_truetype :: "env \<Rightarrow> string \<Rightarrow> int \<Rightarrow> error + font" where
  "ImageFont_truetype e path sz =
     (case truetype_fails e path sz of
        Some err \<Rightarrow> Inl err
      | None \<Rightarrow> Inr (FreeTypeFont path sz))"

section \<open>Constants\<close>

definition backslash :: char where
  "backslash = CHR 0x5C"

definition DEFAULT_CHARACTER_SET :: string where
  "DEFAULT_CHARACTER_SET =
     ''ABCDEFGHIJKLMNOPQRSTUVWXYZ'' @
     ''abcdefghijklmnopqrstuvwxyz'' @
     ''0123456789'' @
     ''.,!?;:'' @ [CHR 0x27, CHR 0x22] @ ''()[]{}+-=*/'' @ [backslash] @ ''|@#$%^&*_~`<> ''"

definition CELL_SIZE :: int where
  "CELL_SIZE = 16"

section \<open>find_system_font\<close>

definition font_paths :: "string \<Rightarrow> string list" where
  "font_paths font_name =
     [ ''/usr/share/fonts/truetype/'' @ str_lower font_name @ ''/'' @ font_name @ ''.ttf'',
       ''/usr/share/fonts/truetype/'' @ str_lower font_name @ ''.ttf'',
       ''/usr/share/fonts/TTF/'' @ font_name @ ''.ttf'',
       ''/System/Library/Fonts/'' @ font_name @ ''.ttf'',
       ''C:'' @ [backslash] @ ''Windows'' @ [backslash] @ ''Fonts'' @ [backslash]
          @ font_name @ ''.ttf'',
       ''/usr/share/fonts/truetype/dejavu/DejaVu'' @ font_name @ ''.ttf'',
       ''/usr/share/fonts/truetype/liberation/Liberation'' @ font_name @ ''.ttf'' ]"

text \<open>
  The loop over \<open>font_paths\<close>. The second component is the sequence of paths handed to
  \<open>os.path.exists\<close>, in order.
\<close>

fun probe_paths :: "env \<Rightarrow> string list \<Rightarrow> string list \<Rightarrow> string option \<times> string list" where
  "probe_paths e [] probed = (None, probed)"
| "probe_paths e (path # rest) probed =
     (if path_exists e path then (Some path, probed @ [path])
      else probe_paths e rest (probed @ [path]))"

text \<open>Result, printed warnings, and the paths probed.\<close>

definition find_system_font ::
  "env \<Rightarrow> string \<Rightarrow> (error + font_handle) \<times> message list \<times> string list" where
  "find_system_font e font_name =
     (if path_exists e font_name then (Inr (PathStr font_name), [], [font_name])
      else
        (case probe_paths e (font_paths font_name) [font_name] of
           (Some path, probed) \<Rightarrow> (Inr (PathStr path), [], probed)
         | (None, probed) \<Rightarrow>
             (case ImageFont_load_default e of
                Inr f \<Rightarrow> (Inr (FontObj f), [WarnFontNotFound font_name], probed)
              | Inl _ \<Rightarrow>
                  (Inl (ValueError (''Could not find font: '' @ font_name)),
                   [WarnFontNotFound font_name], probed))))"

section \<open>calculate_optimal_font_size\<close>

definition test_chars :: string where
  "test_chars = ''ABCDEFGHIJKLMNOPQRSTUVWXYZabcdefghijklmnopqrstuvwxyz0123456789Wm@#''"

definition probe_chars :: string where
  "probe_chars = take 10 test_chars"

text \<open>The inner loop over \<open>test_chars[:10]\<close>, carrying \<open>max_width\<close> and \<open>max_height\<close>.\<close>

fun measure_loop :: "env \<Rightarrow> font \<Rightarrow> string \<Rightarrow> int \<times> int \<Rightarrow> error + int \<times> int" where
  "measure_loop e f [] (max_width, max_height) = Inr (max_width, max_height)"
| "measure_loop e f (c # cs) (max_width, max_height) =
     (case textbbox e f c of
        Inl err \<Rightarrow> Inl err
      | Inr (x0, y0, x1, y1) \<Rightarrow>
          measure_loop e f cs (max max_width (x1 - x0), max max_height (y1 - y0)))"

definition probe_measure :: "env \<Rightarrow> font \<Rightarrow> error + int \<times> int" where
  "probe_measure e f = measure_loop e f probe_chars (0, 0)"

text \<open>
  The body of the \<open>try\<close> for a path string at one size \<open>sz\<close>: \<open>Inl\<close> an exception (caught by
  the \<open>except\<close>), \<open>Inr (Some r)\<close> the \<open>return font, size\<close>, \<open>Inr None\<close> falling through
  to the next size.
\<close>

definition try_size :: "env \<Rightarrow> string \<Rightarrow> int \<Rightarrow> int \<Rightarrow> error + (font \<times> int) option" where
  "try_size e path sz max_fit_size =
     (case ImageFont_truetype e path sz of
        Inl err \<Rightarrow> Inl err
      | Inr f \<Rightarrow>
          (case probe_measure e f of
             Inl err \<Rightarrow> Inl err
           | Inr (max_width, max_height) \<Rightarrow>
               if max_width \<le> max_fit_size \<and> max_height \<le> max_fit_size
               then Inr (Some (f, sz)) else Inr None))"

text \<open>The \<open>for size in range(initial_size, 4, -1)\<close> loop; \<open>Some\<close> is a \<open>return\<close> from it.\<close>

fun size_loop ::
  "env \<Rightarrow> font_handle \<Rightarrow> int \<Rightarrow> int list \<Rightarrow> message list
     \<Rightarrow> (font \<times> int) option \<times> message list" where
  "size_loop e font_path max_fit_size [] out = (None, out)"
| "size_loop e font_path max_fit_size (sz # rest) out =
     (case font_path of
        FontObj f \<Rightarrow> (Some (f, 10), out)
      | PathStr path \<Rightarrow>
          (case try_size e path sz max_fit_size of
             Inl err \<Rightarrow> size_loop e font_path max_fit_size rest (out @ [WarnLoadSize sz err])
           | Inr (Some r) \<Rightarrow> (Some r, out)
           | Inr None \<Rightarrow> size_loop e font_path max_fit_size rest out))"

definition calculate_optimal_font_size ::
  "env \<Rightarrow> font_handle \<Rightarrow> int \<Rightarrow> int \<Rightarrow> (error + font \<times> int) \<times> message list" where
  "calculate_optimal_font_size e font_path initial_size target_size =
     (let max_fit_size = target_size - 4
      in case size_loop e font_path max_fit_size (range_down initial_size 4) [] of
           (Some r, out) \<Rightarrow> (Inr r, out)
         | (None, out) \<Rightarrow>
             (case font_path of
                FontObj f \<Rightarrow> (Inr (f, 8), out)
              | PathStr path \<Rightarrow>
                  (case ImageFont_truetype e path 8 of
                     Inr f \<Rightarrow> (Inr (f, 8), out)
                   | Inl _ \<Rightarrow>
                       (case ImageFont_load_default e of
                          Inr d \<Rightarrow> (Inr (d, 8), out)
                        | Inl err \<Rightarrow> (Inl err, out)))))"

section \<open>generate_sprite_sheet\<close>

text \<open>One value of the \<open>character_map\<close> dictionary.\<close>

record glyph_entry =
  g_index :: int
  g_x :: int
  g_y :: int
  g_u0 :: real
  g_v0 :: real
  g_u1 :: real
  g_v1 :: real

text \<open>
  A Python dictionary keeps its keys in insertion order and an assignment to a key already
  present replaces the value in place: an association list under \<open>AList.update\<close>.
\<close>

type_synonym char_map = "(char \<times> glyph_entry) list"

text \<open>The \<open>metadata\<close> dictionary written to the JSON file.\<close>

record metadata =
  md_font_name :: string
  md_font_size :: int
  md_cell_width :: int
  md_cell_height :: int
  md_columns :: int
  md_rows :: int
  md_image_width :: int
  md_image_height :: int
  md_character_count :: int
  md_character_map :: char_map

text \<open>
  The canvas: its size and the glyphs drawn on it so far, each with the centre it was
  anchored at. A cell nothing was drawn in is blank (transparent).
\<close>

record image =
  im_width :: int
  im_height :: int
  im_drawn :: "((int \<times> int) \<times> char) list"

text \<open>\<open>Image.new\<close> raises \<open>ValueError\<close> on a negative width or height.\<close>

definition Image_new :: "int \<Rightarrow> int \<Rightarrow> error + image" where
  "Image_new w h =
     (if w < 0 \<or> h < 0 then Inl (ValueError ''Width and height must be >= 0'')
      else Inr \<lparr>im_width = w, im_height = h, im_drawn = []\<rparr>)"

text \<open>
  The body of the loop over \<open>enumerate(character_set)\<close>, on the state made of the canvas,
  the \<open>character_map\<close> and the printed warnings.
\<close>

definition render_char ::
  "env \<Rightarrow> font \<Rightarrow> int \<Rightarrow> int \<Rightarrow> int \<Rightarrow> int \<Rightarrow> char
     \<Rightarrow> image \<times> char_map \<times> message list
     \<Rightarrow> (error + image \<times> char_map) \<times> message list" where
  "render_char e fnt columns img_width img_height i ch st =
     (case st of (img, character_map, out) \<Rightarrow>
      case py_mod i columns of Inl err \<Rightarrow> (Inl err, out) | Inr col \<Rightarrow>
      case py_floordiv i columns of Inl err \<Rightarrow> (Inl err, out) | Inr row \<Rightarrow>
        let x = col * CELL_SIZE;
            y = row * CELL_SIZE;
            center_x = x + CELL_SIZE div 2;
            center_y = y + CELL_SIZE div 2;
            drawn = (case draw_text_fails e fnt (center_x, center_y) ch of
                       None \<Rightarrow>
                         (img\<lparr>im_drawn := im_drawn img @ [((center_x, center_y), ch)]\<rparr>, out)
                     | Some err \<Rightarrow> (img, out @ [WarnRender ch err]));
            img' = fst drawn;
            out' = snd drawn
        in
          case py_truediv x img_width of Inl err \<Rightarrow> (Inl err, out') | Inr u0 \<Rightarrow>
          case py_truediv y img_height of Inl err \<Rightarrow> (Inl err, out') | Inr v0 \<Rightarrow>
          case py_truediv (x + CELL_SIZE) img_width of Inl err \<Rightarrow> (Inl err, out') | Inr u1 \<Rightarrow>
          case py_truediv (y + CELL_SIZE) img_height of Inl err \<Rightarrow> (Inl err, out') | Inr v1 \<Rightarrow>
            (Inr (img',
                  AList.update ch
                    \<lparr>g_index = i, g_x = x, g_y = y,
                     g_u0 = py_round u0 6, g_v0 = py_round v0 6,
                     g_u1 = py_round u1 6, g_v1 = py_round v1 6\<rparr>
                    character_map),
             out'))"

fun render_loop ::
  "env \<Rightarrow> font \<Rightarrow> int \<Rightarrow> int \<Rightarrow> int \<Rightarrow> (nat \<times> char) list
     \<Rightarrow> image \<times> char_map \<times> message list
     \<Rightarrow> (error + image \<times> char_map) \<times> message list" where
  "render_loop e fnt columns img_width img_height [] (img, character_map, out) =
     (Inr (img, character_map), out)"
| "render_loop e fnt columns img_width img_height ((i, ch) # rest) st =
     (case render_char e fnt columns img_width img_height (int i) ch st of
        (Inl err, out) \<Rightarrow> (Inl err, out)
      | (Inr (img, character_map), out) \<Rightarrow>
          render_loop e fnt columns img_width img_height rest (img, character_map, out))"

text \<open>The two files a successful run leaves behind, and the paths it returns.\<close>

record sheet =
  image_path :: string
  json_path :: string
  saved_image :: image
  saved_metadata :: metadata

definition generate_sprite_sheet ::
  "env \<Rightarrow> string \<Rightarrow> int \<Rightarrow> string \<Rightarrow> string \<Rightarrow> int \<Rightarrow> (error + sheet) \<times> message list" where
  "generate_sprite_sheet e font_name font_size output_dir character_set columns =
     (case find_system_font e font_name of
        (Inl err, out0, _) \<Rightarrow> (Inl err, out0)
      | (Inr font_path, out0, _) \<Rightarrow>
     (case calculate_optimal_font_size e font_path font_size CELL_SIZE of
        (Inl err, out1) \<Rightarrow> (Inl err, out0 @ out1)
      | (Inr (fnt, actual_size), out1) \<Rightarrow>
     (let num_chars = int (length character_set) in
      case py_truediv num_chars columns of
        Inl err \<Rightarrow> (Inl err, out0 @ out1)
      | Inr q \<Rightarrow>
     (let rows = math_ceil q;
          img_width = columns * CELL_SIZE;
          img_height = rows * CELL_SIZE
      in
      case Image_new img_width img_height of
        Inl err \<Rightarrow> (Inl err, out0 @ out1)
      | Inr img0 \<Rightarrow>
     (case render_loop e fnt columns img_width img_height (enumerate 0 character_set)
             (img0, [], out0 @ out1) of
        (Inl err, out) \<Rightarrow> (Inl err, out)
      | (Inr (img, character_map), out) \<Rightarrow>
     (case mkdir_fails e output_dir of
        Some err \<Rightarrow> (Inl err, out)
      | None \<Rightarrow>
     (let base_name = str_replace_char CHR '' '' CHR ''_'' font_name @ ''_'' @ str_int actual_size;
          image_filename = base_name @ ''.sheet.png'';
          json_filename = base_name @ ''.sheet.json'';
          image_path = os_path_join output_dir image_filename;
          json_path = os_path_join output_dir json_filename
      in
      case save_fails e image_path of
        Some err \<Rightarrow> (Inl err, out)
      | None \<Rightarrow>
     (let metadata =
            \<lparr>md_font_name = font_name,
             md_font_size = actual_size,
             md_cell_width = CELL_SIZE,
             md_cell_height = CELL_SIZE,
             md_columns = columns,
             md_rows = rows,
             md_image_width = img_width,
             md_image_height = img_height,
             md_character_count = num_chars,
             md_character_map = character_map\<rparr>
      in
      case open_fails e json_path of
        Some err \<Rightarrow> (Inl err, out)
      | None \<Rightarrow>
          (Inr \<lparr>image_path = image_path, json_path = json_path,
                saved_image = img, saved_metadata = metadata\<rparr>,
           out)))))))))"

section \<open>Vocabulary of the statements\<close>

text \<open>
  A candidate size fits when the font loads at that size, every probe glyph can be
  measured, and the maxima found by \<open>probe_measure\<close> are both within the limit.
\<close>

definition size_fits :: "env \<Rightarrow> string \<Rightarrow> int \<Rightarrow> int \<Rightarrow> bool" where
  "size_fits e path sz max_fit_size =
     (truetype_fails e path sz = None \<and>
      (case probe_measure e (FreeTypeFont path sz) of
         Inl _ \<Rightarrow> False
       | Inr (w, h) \<Rightarrow> w \<le> max_fit_size \<and> h \<le> max_fit_size))"

text \<open>Width and height of a bounding box \<open>(x0, y0, x1, y1)\<close>, as the probe loop takes them.\<close>

definition bbox_width :: "int \<times> int \<times> int \<times> int \<Rightarrow> int" where
  "bbox_width bbox = (case bbox of (x0, y0, x1, y1) \<Rightarrow> x1 - x0)"

definition bbox_height :: "int \<times> int \<times> int \<times> int \<Rightarrow> int" where
  "bbox_height bbox = (case bbox of (x0, y0, x1, y1) \<Rightarrow> y1 - y0)"

text \<open>
  The entry the loop body stores for position \<open>i\<close>, as a function of the grid geometry.
\<close>

definition cell_entry :: "int \<Rightarrow> int \<Rightarrow> int \<Rightarrow> int \<Rightarrow> glyph_entry" where
  "cell_entry columns img_width img_height i =
     \<lparr>g_index = i,
      g_x = (i mod columns) * CELL_SIZE,
      g_y = (i div columns) * CELL_SIZE,
      g_u0 = py_round (of_int ((i mod columns) * CELL_SIZE) / of_int img_width) 6,
      g_v0 = py_round (of_int ((i div columns) * CELL_SIZE) / of_int img_height) 6,
      g_u1 = py_round (of_int ((i mod columns) * CELL_SIZE + CELL_SIZE) / of_int img_width) 6,
      g_v1 = py_round (of_int ((i div columns) * CELL_SIZE + CELL_SIZE) / of_int img_height) 6\<rparr>"

definition cell_center :: "int \<Rightarrow> int \<Rightarrow> int \<times> int" where
  "cell_center columns i =
     ((i mod columns) * CELL_SIZE + CELL_SIZE div 2, (i div columns) * CELL_SIZE + CELL_SIZE div 2)"

text \<open>
  What the loop over \<open>enumerate(character_set)\<close> leaves in the dictionary, on the canvas
  and among the warnings when no division in its body raises; \<open>render_loop_closed_form\<close>
  below proves it.
\<close>

definition store_entries :: "int \<Rightarrow> int \<Rightarrow> int \<Rightarrow> (nat \<times> char) list \<Rightarrow> char_map \<Rightarrow> char_map" where
  "store_entries columns img_width img_height xs cm =
     foldl (\<lambda>m (i, ch). AList.update ch (cell_entry columns img_width img_height (int i)) m) cm xs"

definition drawn_glyphs :: "env \<Rightarrow> font \<Rightarrow> int \<Rightarrow> (nat \<times> char) list \<Rightarrow> ((int \<times> int) \<times> char) list" where
  "drawn_glyphs e fnt columns xs =
     map (\<lambda>(i, ch). (cell_center columns (int i), ch))
       (filter (\<lambda>(i, ch). draw_text_fails e fnt (cell_center columns (int i)) ch = None) xs)"

definition render_warnings :: "env \<Rightarrow> font \<Rightarrow> int \<Rightarrow> (nat \<times> char) list \<Rightarrow> message list" where
  "render_warnings e fnt columns xs =
     concat (map (\<lambda>(i, ch). case draw_text_fails e fnt (cell_center columns (int i)) ch of
                                None \<Rightarrow> [] | Some err \<Rightarrow> [WarnRender ch err]) xs)"

section \<open>Example environments\<close>

text \<open>
  A machine with one font file, DejaVu Sans, whose glyphs at size \<open>sz\<close> measure
  \<open>sz\<close> by \<open>sz + 2\<close>; every other path is absent and cannot be opened.
\<close>

definition dejavu_path :: string where
  "dejavu_path = ''/usr/share/fonts/truetype/dejavu/DejaVuSans.ttf''"

definition demo_env :: env where
  "demo_env =
     \<lparr>path_exists = (\<lambda>p. p = dejavu_path),
      load_default_fails = None,
      truetype_fails = (\<lambda>p sz. if p = dejavu_path then None
                                 else Some (LibError ''cannot open resource'')),
      textbbox = (\<lambda>f c. case f of FreeTypeFont p sz \<Rightarrow> Inr (0, 0, sz, sz + 2)
                                  | DefaultFont \<Rightarrow> Inr (0, 0, 6, 11)),
      draw_text_fails = (\<lambda>f xy c. None),
      mkdir_fails = (\<lambda>d. None),
      save_fails = (\<lambda>p. None),
      open_fails = (\<lambda>p. None)\<rparr>"

text \<open>The same machine with a display font three times as wide and high as its nominal size.\<close>

definition wide_env :: env where
  "wide_env = demo_env\<lparr>textbbox := (\<lambda>f c. case f of FreeTypeFont p sz \<Rightarrow> Inr (0, 0, 3 * sz, 3 * sz)
                                                     | DefaultFont \<Rightarrow> Inr (0, 0, 6, 11))\<rparr>"

text \<open>The same machine with a font file that exists but cannot be opened at any size.\<close>

definition broken_env :: env where
  "broken_env = demo_env\<lparr>truetype_fails := (\<lambda>p sz. Some (LibError ''unknown file format''))\<rparr>"

text \<open>The same machine whose font has no glyph for \<open>B\<close>: drawing it raises.\<close>

definition no_B_env :: env where
  "no_B_env = demo_env\<lparr>draw_text_fails :=
     (\<lambda>f xy c. if c = CHR ''B'' then Some (LibError ''glyph not found'') else None)\<rparr>"



section \<open>The candidate sizes\<close>

lemma range_down_upto: "range_down a b = rev [b + 1..a]"
proof (induction a b rule: range_down.induct)
  case (1 start stop)
  show ?case
  proof (cases "stop < start")
    case True
    then have "[stop + 1..start] = [stop + 1..start - 1] @ [start]"
      by (simp add: upto_rec2)
    with True 1 show ?thesis by (simp add: range_down.simps[of start stop])
  next
    case False
    then show ?thesis by (simp add: range_down.simps[of start stop])
  qed
qed

lemma set_range_down: "set (range_down a b) = {b<..a}"
  by (auto simp: range_down_upto)

lemma range_down_split:
  assumes "b < sz" "sz \<le> a"
  shows "range_down a b = rev [sz + 1..a] @ sz # rev [b + 1..sz - 1]"
proof -
  have "[b + 1..a] = [b + 1..sz - 1] @ sz # [sz + 1..a]"
    using assms upto_split3[of "b + 1" sz a] by simp
  then show ?thesis by (simp add: range_down_upto)
qed

section \<open>The probe measurement\<close>

lemma probe_chars_eq: "probe_chars = ''ABCDEFGHIJ''"
  by (simp add: probe_chars_def test_chars_def)

lemma measure_loop_const:
  assumes "\<And>c. textbbox e f c = Inr (x0, y0, x1, y1)"
  shows "measure_loop e f cs (mw, mh) =
           Inr (if cs = [] then (mw, mh) else (max mw (x1 - x0), max mh (y1 - y0)))"
proof (induction cs arbitrary: mw mh)
  case Nil
  show ?case by simp
next
  case (Cons c cs)
  show ?case by (simp add: assms Cons.IH)
qed

lemma probe_measure_const:
  assumes "\<And>c. textbbox e f c = Inr (x0, y0, x1, y1)"
  shows "probe_measure e f = Inr (max 0 (x1 - x0), max 0 (y1 - y0))"
  unfolding probe_measure_def measure_loop_const[of e f, OF assms]
  by (simp add: probe_chars_eq)

lemma Max_insert_max:
  fixes a b :: int
  assumes "finite S"
  shows "Max (insert (max a b) S) = Max (insert a (insert b S))"
proof (cases "S = {}")
  case True
  then show ?thesis by (simp add: max.commute)
next
  case False
  with assms show ?thesis by (simp add: max.assoc)
qed

lemma measure_loop_max:
  assumes "\<forall>c\<in>set cs. textbbox e f c = Inr (bb c)"
  shows "measure_loop e f cs (mw, mh) =
           Inr (Max (insert mw ((\<lambda>c. bbox_width (bb c)) ` set cs)),
                Max (insert mh ((\<lambda>c. bbox_height (bb c)) ` set cs)))"
  using assms
proof (induction cs arbitrary: mw mh)
  case Nil
  show ?case by simp
next
  case (Cons c cs)
  obtain x0 y0 x1 y1 where bb: "bb c = (x0, y0, x1, y1)"
    by (cases "bb c") auto
  from Cons.prems have rest: "\<forall>c\<in>set cs. textbbox e f c = Inr (bb c)"
    and here: "textbbox e f c = Inr (bb c)" by auto
  have "measure_loop e f (c # cs) (mw, mh) =
          measure_loop e f cs (max mw (x1 - x0), max mh (y1 - y0))"
    by (simp add: here bb)
  also have "\<dots> = Inr (Max (insert (max mw (x1 - x0)) ((\<lambda>c. bbox_width (bb c)) ` set cs)),
                Max (insert (max mh (y1 - y0)) ((\<lambda>c. bbox_height (bb c)) ` set cs)))"
    by (rule Cons.IH[OF rest])
  also have "\<dots> = Inr (Max (insert mw ((\<lambda>c. bbox_width (bb c)) ` set (c # cs))),
                Max (insert mh ((\<lambda>c. bbox_height (bb c)) ` set (c # cs))))"
    by (simp add: Max_insert_max bb bbox_width_def bbox_height_def)
  finally show ?case .
qed

section \<open>The size loop\<close>

lemma try_size_accepts:
  "size_fits e path sz m \<Longrightarrow> try_size e path sz m = Inr (Some (FreeTypeFont path sz, sz))"
  by (auto simp: size_fits_def try_size_def ImageFont_truetype_def split: sum.splits option.splits)

lemma try_size_rejects:
  "\<not> size_fits e path sz m \<Longrightarrow> try_size e path sz m \<noteq> Inr (Some r)"
  by (auto simp: size_fits_def try_size_def ImageFont_truetype_def split: sum.splits option.splits)

lemma size_loop_none_fit:
  "\<forall>s\<in>set cands. \<not> size_fits e path s m \<Longrightarrow>
   fst (size_loop e (PathStr path) m cands out) = None"
proof (induction cands arbitrary: out)
  case Nil
  then show ?case by simp
next
  case (Cons s cands)
  then have "\<And>r. try_size e path s m \<noteq> Inr (Some r)"
    by (simp add: try_size_rejects)
  with Cons show ?case
    by (auto split: sum.splits option.splits)
qed

lemma size_loop_first_fit:
  "\<forall>s\<in>set pre. \<not> size_fits e path s m \<Longrightarrow> size_fits e path sz m \<Longrightarrow>
   fst (size_loop e (PathStr path) m (pre @ sz # post) out) = Some (FreeTypeFont path sz, sz)"
proof (induction pre arbitrary: out)
  case Nil
  then show ?case by (simp add: try_size_accepts)
next
  case (Cons s pre)
  then have "\<And>r. try_size e path s m \<noteq> Inr (Some r)"
    by (simp add: try_size_rejects)
  with Cons show ?case
    by (auto split: sum.splits option.splits)
qed

lemma size_loop_some_fit:
  "\<exists>s\<in>set cands. size_fits e path s m \<Longrightarrow>
   \<exists>sz\<in>set cands. size_fits e path sz m \<and>
      fst (size_loop e (PathStr path) m cands out) = Some (FreeTypeFont path sz, sz)"
proof (induction cands arbitrary: out)
  case Nil
  then show ?case by simp
next
  case (Cons s cands)
  show ?case
  proof (cases "size_fits e path s m")
    case True
    then show ?thesis by (simp add: try_size_accepts)
  next
    case False
    then have no: "\<And>r. try_size e path s m \<noteq> Inr (Some r)"
      by (simp add: try_size_rejects)
    from False Cons.prems have "\<exists>s\<in>set cands. size_fits e path s m" by auto
    from Cons.IH[OF this] no show ?thesis
      by (auto split: sum.splits option.splits)
  qed
qed

lemma size_fits_measured:
  "size_fits e path sz m \<Longrightarrow>
   \<exists>w h. probe_measure e (FreeTypeFont path sz) = Inr (w, h) \<and> w \<le> m \<and> h \<le> m"
  by (auto simp: size_fits_def split: sum.splits)

lemma fitter_accepts:
  assumes "4 < sz" "sz \<le> initial_size" "size_fits e path sz (target_size - 4)"
    and "\<forall>s. sz < s \<and> s \<le> initial_size \<longrightarrow> \<not> size_fits e path s (target_size - 4)"
  shows "fst (calculate_optimal_font_size e (PathStr path) initial_size target_size)
           = Inr (FreeTypeFont path sz, sz)"
proof -
  have "fst (size_loop e (PathStr path) (target_size - 4) (range_down initial_size 4) [])
          = Some (FreeTypeFont path sz, sz)"
    unfolding range_down_split[OF assms(1,2)]
    by (rule size_loop_first_fit) (use assms in auto)
  then show ?thesis
    by (auto simp: calculate_optimal_font_size_def split: prod.splits option.splits)
qed

lemma fitter_exhausted:
  assumes "\<forall>s. 4 < s \<and> s \<le> initial_size \<longrightarrow> \<not> size_fits e path s (target_size - 4)"
  shows "fst (calculate_optimal_font_size e (PathStr path) initial_size target_size)
           = (case truetype_fails e path 8 of
                None \<Rightarrow> Inr (FreeTypeFont path 8, 8)
              | Some _ \<Rightarrow> (case load_default_fails e of
                             None \<Rightarrow> Inr (DefaultFont, 8)
                           | Some err \<Rightarrow> Inl err))"
proof -
  have "fst (size_loop e (PathStr path) (target_size - 4) (range_down initial_size 4) []) = None"
    by (rule size_loop_none_fit) (use assms in \<open>auto simp: set_range_down\<close>)
  then show ?thesis
    by (auto simp: calculate_optimal_font_size_def ImageFont_truetype_def
        ImageFont_load_default_def split: prod.splits option.splits sum.splits)
qed

lemma fitter_default_handle:
  "calculate_optimal_font_size e (FontObj f) initial_size target_size =
     (Inr (f, if 5 \<le> initial_size then 10 else 8), [])"
proof (cases "4 < initial_size")
  case True
  then obtain rest where "range_down initial_size 4 = initial_size # rest"
    by (simp add: range_down.simps[of initial_size 4])
  with True show ?thesis
    by (simp add: calculate_optimal_font_size_def)
next
  case False
  then have "range_down initial_size 4 = []"
    by (simp add: range_down.simps[of initial_size 4])
  with False show ?thesis
    by (simp add: calculate_optimal_font_size_def)
qed

lemma fitter_some_fit:
  assumes "\<exists>s. 4 < s \<and> s \<le> initial_size \<and> size_fits e path s m"
  shows "\<exists>sz. 4 < sz \<and> sz \<le> initial_size \<and> size_fits e path sz m \<and>
           fst (size_loop e (PathStr path) m (range_down initial_size 4) [])
             = Some (FreeTypeFont path sz, sz)"
proof -
  from assms have "\<exists>s\<in>set (range_down initial_size 4). size_fits e path s m"
    by (auto simp: set_range_down)
  from size_loop_some_fit[OF this, of "[]"] show ?thesis
    by (auto simp: set_range_down)
qed

subsection \<open>The fitter on the example machines\<close>

lemma probe_measure_demo:
  "probe_measure demo_env (FreeTypeFont p sz) = Inr (max 0 sz, max 0 (sz + 2))"
  using probe_measure_const[of demo_env "FreeTypeFont p sz" 0 0 sz "sz + 2"]
  by (simp add: demo_env_def)

lemma probe_measure_wide:
  "probe_measure wide_env (FreeTypeFont p sz) = Inr (max 0 (3 * sz), max 0 (3 * sz))"
  using probe_measure_const[of wide_env "FreeTypeFont p sz" 0 0 "3 * sz" "3 * sz"]
  by (simp add: demo_env_def wide_env_def)

lemma size_fits_demo:
  "size_fits demo_env dejavu_path sz 12 \<longleftrightarrow> sz \<le> 10"
  by (auto simp: size_fits_def probe_measure_demo) (simp_all add: demo_env_def)

lemma size_fits_wide:
  "size_fits wide_env dejavu_path sz 12 \<longleftrightarrow> sz \<le> 4"
  by (auto simp: size_fits_def probe_measure_wide) (simp_all add: demo_env_def wide_env_def)

lemma size_fits_broken:
  "\<not> size_fits broken_env dejavu_path sz m"
  by (simp add: size_fits_def broken_env_def)

section \<open>Claims about the size fitter\<close>

text \<open>
  Claim C1. For a font path (a scalable font) and any \<open>initial_size\<close> and target cell size,
  the candidates are \<open>initial_size, initial_size - 1, ..., 5\<close>. The fitter returns the font
  at the largest candidate that fits, that is, that loads, can be measured and has both probe
  maxima within \<open>target_size - 4\<close>. When no candidate fits it returns the font at size 8 if
  it loads at size 8, and otherwise the default font with size 8 if the default font loads.
\<close>

theorem fitter_picks_largest_fitting_size:
  "range_down initial_size 4 = rev [5..initial_size] \<and>
   (\<forall>sz. 5 \<le> sz \<and> sz \<le> initial_size \<and> size_fits e path sz (target_size - 4) \<and>
         (\<forall>s. sz < s \<and> s \<le> initial_size \<longrightarrow> \<not> size_fits e path s (target_size - 4)) \<longrightarrow>
      fst (calculate_optimal_font_size e (PathStr path) initial_size target_size)
        = Inr (FreeTypeFont path sz, sz)) \<and>
   ((\<forall>s. 5 \<le> s \<and> s \<le> initial_size \<longrightarrow> \<not> size_fits e path s (target_size - 4)) \<longrightarrow>
      (truetype_fails e path 8 = None \<longrightarrow>
         fst (calculate_optimal_font_size e (PathStr path) initial_size target_size)
           = Inr (FreeTypeFont path 8, 8)) \<and>
      (truetype_fails e path 8 \<noteq> None \<and> load_default_fails e = None \<longrightarrow>
         fst (calculate_optimal_font_size e (PathStr path) initial_size target_size)
           = Inr (DefaultFont, 8)))"
proof (intro conjI allI impI)
  show "range_down initial_size 4 = rev [5..initial_size]"
    by (simp add: range_down_upto)
next
  fix sz
  assume "5 \<le> sz \<and> sz \<le> initial_size \<and> size_fits e path sz (target_size - 4) \<and>
         (\<forall>s. sz < s \<and> s \<le> initial_size \<longrightarrow> \<not> size_fits e path s (target_size - 4))"
  then show "fst (calculate_optimal_font_size e (PathStr path) initial_size target_size)
        = Inr (FreeTypeFont path sz, sz)"
    by (intro fitter_accepts) auto
next
  assume none: "\<forall>s. 5 \<le> s \<and> s \<le> initial_size \<longrightarrow> \<not> size_fits e path s (target_size - 4)"
    and ok: "truetype_fails e path 8 = None"
  from none have "\<forall>s. 4 < s \<and> s \<le> initial_size \<longrightarrow> \<not> size_fits e path s (target_size - 4)"
    by auto
  from fitter_exhausted[OF this] ok
  show "fst (calculate_optimal_font_size e (PathStr path) initial_size target_size)
           = Inr (FreeTypeFont path 8, 8)"
    by simp
next
  assume none: "\<forall>s. 5 \<le> s \<and> s \<le> initial_size \<longrightarrow> \<not> size_fits e path s (target_size - 4)"
    and bad: "truetype_fails e path 8 \<noteq> None \<and> load_default_fails e = None"
  from none have "\<forall>s. 4 < s \<and> s \<le> initial_size \<longrightarrow> \<not> size_fits e path s (target_size - 4)"
    by auto
  from fitter_exhausted[OF this] bad
  show "fst (calculate_optimal_font_size e (PathStr path) initial_size target_size)
           = Inr (DefaultFont, 8)"
    by auto
qed

theorem fitter_picks_largest_fitting_size_witness:
  "fst (calculate_optimal_font_size demo_env (PathStr dejavu_path) 12 16)
     = Inr (FreeTypeFont dejavu_path 10, 10) \<and>
   fst (calculate_optimal_font_size wide_env (PathStr dejavu_path) 12 16)
     = Inr (FreeTypeFont dejavu_path 8, 8) \<and>
   fst (calculate_optimal_font_size broken_env (PathStr dejavu_path) 12 16)
     = Inr (DefaultFont, 8)"
proof (intro conjI)
  have "fst (calculate_optimal_font_size demo_env (PathStr dejavu_path) 12 (12 + 4))
     = Inr (FreeTypeFont dejavu_path 10, 10)"
    using fitter_picks_largest_fitting_size[of 12 demo_env dejavu_path "12 + 4"]
    by (simp add: size_fits_demo)
  then show "fst (calculate_optimal_font_size demo_env (PathStr dejavu_path) 12 16)
     = Inr (FreeTypeFont dejavu_path 10, 10)" by simp
next
  have "truetype_fails wide_env dejavu_path 8 = None"
    by (simp add: wide_env_def demo_env_def)
  then have "fst (calculate_optimal_font_size wide_env (PathStr dejavu_path) 12 (12 + 4))
     = Inr (FreeTypeFont dejavu_path 8, 8)"
    using fitter_picks_largest_fitting_size[of 12 wide_env dejavu_path "12 + 4"]
    by (simp add: size_fits_wide)
  then show "fst (calculate_optimal_font_size wide_env (PathStr dejavu_path) 12 16)
     = Inr (FreeTypeFont dejavu_path 8, 8)" by simp
next
  have "truetype_fails broken_env dejavu_path 8 \<noteq> None \<and> load_default_fails broken_env = None"
    by (simp add: broken_env_def demo_env_def)
  then have "fst (calculate_optimal_font_size broken_env (PathStr dejavu_path) 12 (12 + 4))
     = Inr (DefaultFont, 8)"
    using fitter_picks_largest_fitting_size[of 12 broken_env dejavu_path "12 + 4"]
    by (simp add: size_fits_broken)
  then show "fst (calculate_optimal_font_size broken_env (PathStr dejavu_path) 12 16)
     = Inr (DefaultFont, 8)" by simp
qed

text \<open>
  Claim C2, as amended. For a font path, when some candidate size between 5 and
  \<open>initial_size\<close> fits, the fitter returns a candidate size and the font loaded at it, whose
  measured probe maxima are both within \<open>target_size - 4\<close>. When no candidate fits, every
  size it returns is the fallback 8, returned without a measurement. A handle that is
  already a font object comes back unmeasured with the nominal size 10 (or 8 when
  \<open>initial_size\<close> is below 5).
\<close>

theorem fitter_result_fits_unless_fallback:
  "((\<exists>s. 5 \<le> s \<and> s \<le> initial_size \<and> size_fits e path s (target_size - 4)) \<longrightarrow>
      (\<exists>sz w h.
         fst (calculate_optimal_font_size e (PathStr path) initial_size target_size)
           = Inr (FreeTypeFont path sz, sz) \<and>
         5 \<le> sz \<and> sz \<le> initial_size \<and>
         probe_measure e (FreeTypeFont path sz) = Inr (w, h) \<and>
         w \<le> target_size - 4 \<and> h \<le> target_size - 4)) \<and>
   ((\<forall>s. 5 \<le> s \<and> s \<le> initial_size \<longrightarrow> \<not> size_fits e path s (target_size - 4)) \<longrightarrow>
      (\<forall>f sz. fst (calculate_optimal_font_size e (PathStr path) initial_size target_size)
                 = Inr (f, sz) \<longrightarrow> sz = 8)) \<and>
   fst (calculate_optimal_font_size e (FontObj d) initial_size target_size)
     = Inr (d, if 5 \<le> initial_size then 10 else 8)"
proof (intro conjI impI)
  assume "\<exists>s. 5 \<le> s \<and> s \<le> initial_size \<and> size_fits e path s (target_size - 4)"
  then obtain s where "5 \<le> s" "s \<le> initial_size" "size_fits e path s (target_size - 4)"
    by blast
  then have "4 < s \<and> s \<le> initial_size \<and> size_fits e path s (target_size - 4)"
    by simp
  then have "\<exists>s. 4 < s \<and> s \<le> initial_size \<and> size_fits e path s (target_size - 4)" ..
  from fitter_some_fit[OF this] obtain sz where
    sz: "4 < sz" "sz \<le> initial_size" "size_fits e path sz (target_size - 4)"
    and loop: "fst (size_loop e (PathStr path) (target_size - 4) (range_down initial_size 4) [])
                 = Some (FreeTypeFont path sz, sz)"
    by blast
  from loop have "fst (calculate_optimal_font_size e (PathStr path) initial_size target_size)
           = Inr (FreeTypeFont path sz, sz)"
    by (auto simp: calculate_optimal_font_size_def split: prod.splits option.splits)
  moreover from size_fits_measured[OF sz(3)] obtain w h where
    "probe_measure e (FreeTypeFont path sz) = Inr (w, h)" "w \<le> target_size - 4"
    "h \<le> target_size - 4"
    by blast
  ultimately show "\<exists>sz w h.
         fst (calculate_optimal_font_size e (PathStr path) initial_size target_size)
           = Inr (FreeTypeFont path sz, sz) \<and>
         5 \<le> sz \<and> sz \<le> initial_size \<and>
         probe_measure e (FreeTypeFont path sz) = Inr (w, h) \<and>
         w \<le> target_size - 4 \<and> h \<le> target_size - 4"
    using sz by auto
next
  assume "\<forall>s. 5 \<le> s \<and> s \<le> initial_size \<longrightarrow> \<not> size_fits e path s (target_size - 4)"
  then have "\<forall>s. 4 < s \<and> s \<le> initial_size \<longrightarrow> \<not> size_fits e path s (target_size - 4)"
    by auto
  from fitter_exhausted[OF this]
  show "\<forall>f sz. fst (calculate_optimal_font_size e (PathStr path) initial_size target_size)
                 = Inr (f, sz) \<longrightarrow> sz = 8"
    by (auto split: option.splits)
next
  show "fst (calculate_optimal_font_size e (FontObj d) initial_size target_size)
     = Inr (d, if 5 \<le> initial_size then 10 else 8)"
    by (simp add: fitter_default_handle)
qed

theorem fitter_result_fits_unless_fallback_witness:
  "size_fits demo_env dejavu_path 10 (16 - 4) \<and>
   (\<exists>sz w h.
      fst (calculate_optimal_font_size demo_env (PathStr dejavu_path) 12 16)
        = Inr (FreeTypeFont dejavu_path sz, sz) \<and>
      5 \<le> sz \<and> sz \<le> 12 \<and>
      probe_measure demo_env (FreeTypeFont dejavu_path sz) = Inr (w, h) \<and>
      w \<le> 16 - 4 \<and> h \<le> 16 - 4) \<and>
   (case fst (calculate_optimal_font_size broken_env (PathStr dejavu_path) 12 16) of
      Inl err \<Rightarrow> False
    | Inr (f, sz) \<Rightarrow> sz = 8)"
proof (intro conjI)
  show fits: "size_fits demo_env dejavu_path 10 (16 - 4)"
    by (simp add: size_fits_demo)
  then have "\<exists>s. 5 \<le> s \<and> s \<le> 12 \<and> size_fits demo_env dejavu_path s (16 - 4)"
    by (intro exI[of _ 10]) simp
  with fitter_result_fits_unless_fallback[of 12 demo_env dejavu_path 16]
  show "\<exists>sz w h.
      fst (calculate_optimal_font_size demo_env (PathStr dejavu_path) 12 16)
        = Inr (FreeTypeFont dejavu_path sz, sz) \<and>
      5 \<le> sz \<and> sz \<le> 12 \<and>
      probe_measure demo_env (FreeTypeFont dejavu_path sz) = Inr (w, h) \<and>
      w \<le> 16 - 4 \<and> h \<le> 16 - 4"
    by blast
next
  have "\<forall>s. 5 \<le> s \<and> s \<le> 12 \<longrightarrow> \<not> size_fits broken_env dejavu_path s (16 - 4)"
    by (simp add: size_fits_broken)
  with fitter_result_fits_unless_fallback[of 12 broken_env dejavu_path 16]
  have eight: "\<forall>f sz. fst (calculate_optimal_font_size broken_env (PathStr dejavu_path) 12 16)
                 = Inr (f, sz) \<longrightarrow> sz = 8"
    by blast
  have "load_default_fails broken_env = None"
    by (simp add: broken_env_def demo_env_def)
  then have "\<exists>r. fst (calculate_optimal_font_size broken_env (PathStr dejavu_path) 12 16) = Inr r"
    using fitter_exhausted[of 12 broken_env dejavu_path 16]
    by (simp add: size_fits_broken split: option.splits)
  with eight show "case fst (calculate_optimal_font_size broken_env (PathStr dejavu_path) 12 16) of
      Inl err \<Rightarrow> False
    | Inr (f, sz) \<Rightarrow> sz = 8"
    by (auto split: sum.splits)
qed

text \<open>
  The claim as first stated fails: with the font three times as large as its nominal size
  no candidate from 12 down to 5 fits, the fitter returns size 8, and the probe glyphs at
  size 8 measure 24 by 24, above the limit \<open>CELL_SIZE - 4 = 12\<close>.
\<close>

theorem fitter_fallback_exceeds_limit:
  "fst (calculate_optimal_font_size wide_env (PathStr dejavu_path) 12 CELL_SIZE)
     = Inr (FreeTypeFont dejavu_path 8, 8) \<and>
   probe_measure wide_env (FreeTypeFont dejavu_path 8) = Inr (24, 24) \<and>
   \<not> (24 \<le> CELL_SIZE - 4)"
proof (intro conjI)
  have "\<forall>s. 4 < s \<and> s \<le> 12 \<longrightarrow> \<not> size_fits wide_env dejavu_path s (CELL_SIZE - 4)"
    by (simp add: CELL_SIZE_def size_fits_wide)
  from fitter_exhausted[OF this]
  show "fst (calculate_optimal_font_size wide_env (PathStr dejavu_path) 12 CELL_SIZE)
     = Inr (FreeTypeFont dejavu_path 8, 8)"
    by (simp add: wide_env_def demo_env_def)
  show "probe_measure wide_env (FreeTypeFont dejavu_path 8) = Inr (24, 24)"
    by (simp add: probe_measure_wide)
  show "\<not> (24 \<le> CELL_SIZE - 4)"
    by (simp add: CELL_SIZE_def)
qed

text \<open>
  Claim C7, as amended. At every candidate size the fitter measures, with \<open>textbbox\<close>, the
  fixed probe set of exactly 10 glyphs \<open>ABCDEFGHIJ\<close>, the first ten characters of its test
  string, and takes the maxima of their widths and of their heights (starting from 0).
\<close>

theorem probe_set_is_first_ten_capitals:
  "probe_chars = ''ABCDEFGHIJ'' \<and> length probe_chars = 10 \<and>
   ((\<forall>c\<in>set probe_chars. textbbox e f c = Inr (bb c)) \<longrightarrow>
      probe_measure e f =
        Inr (Max (insert 0 ((\<lambda>c. bbox_width (bb c)) ` set probe_chars)),
             Max (insert 0 ((\<lambda>c. bbox_height (bb c)) ` set probe_chars))))"
proof (intro conjI impI)
  show "probe_chars = ''ABCDEFGHIJ''" by (rule probe_chars_eq)
  show "length probe_chars = 10" by (simp add: probe_chars_eq)
next
  assume "\<forall>c\<in>set probe_chars. textbbox e f c = Inr (bb c)"
  then show "probe_measure e f =
        Inr (Max (insert 0 ((\<lambda>c. bbox_width (bb c)) ` set probe_chars)),
             Max (insert 0 ((\<lambda>c. bbox_height (bb c)) ` set probe_chars)))"
    unfolding probe_measure_def by (rule measure_loop_max)
qed

theorem probe_set_is_first_ten_capitals_witness:
  "probe_measure demo_env (FreeTypeFont dejavu_path 10) = Inr (10, 12)"
proof -
  have h: "\<forall>c\<in>set probe_chars.
             textbbox demo_env (FreeTypeFont dejavu_path 10) c = Inr (0, 0, 10, 12)"
    by (simp add: demo_env_def)
  from probe_set_is_first_ten_capitals[of demo_env "FreeTypeFont dejavu_path 10"
      "\<lambda>c. (0, 0, 10, 12)"] h
  show "probe_measure demo_env (FreeTypeFont dejavu_path 10) = Inr (10, 12)"
    by (simp add: bbox_width_def bbox_height_def probe_chars_eq)
qed

text \<open>
  The claim as first stated fails: the probe set holds capital letters only, no digit and
  none of the descending letters.
\<close>

theorem probe_set_has_no_digit_or_descender:
  "probe_chars = ''ABCDEFGHIJ'' \<and>
   set probe_chars \<inter> set ''0123456789'' = {} \<and>
   set probe_chars \<inter> set ''gjpqy'' = {}"
  by (simp add: probe_chars_eq)

section \<open>Claims about the font locator\<close>

lemma probe_paths_first:
  "\<forall>q\<in>set pre. \<not> path_exists e q \<Longrightarrow> path_exists e p \<Longrightarrow>
   probe_paths e (pre @ p # post) probed = (Some p, probed @ pre @ [p])"
  by (induction pre arbitrary: probed) auto


lemma probe_paths_Some_exists:
  "probe_paths e ps probed = (Some p, probed') \<Longrightarrow> path_exists e p"
  by (induction ps arbitrary: probed) (auto split: if_splits)

lemma font_paths_Sans:
  "font_paths ''Sans'' =
     take 5 (font_paths ''Sans'') @ dejavu_path # drop 6 (font_paths ''Sans'')"
  by (simp add: font_paths_def dejavu_path_def)

lemma Sans_absent: "''Sans'' \<noteq> dejavu_path"
  by (simp add: dejavu_path_def)

lemma Sans_pre_absent: "\<forall>q\<in>set (take 5 (font_paths ''Sans'')). q \<noteq> dejavu_path"
  by (simp add: font_paths_def dejavu_path_def str_lower_def char_lower_def backslash_def)



section \<open>The render loop\<close>

lemma render_char_ok:
  assumes "columns \<noteq> 0" "img_width \<noteq> 0" "img_height \<noteq> 0"
  shows "render_char e fnt columns img_width img_height i ch (img, cm, out) =
           (Inr (case draw_text_fails e fnt (cell_center columns i) ch of
                   None \<Rightarrow> img\<lparr>im_drawn := im_drawn img @ [(cell_center columns i, ch)]\<rparr>
                 | Some err \<Rightarrow> img,
                 AList.update ch (cell_entry columns img_width img_height i) cm),
            case draw_text_fails e fnt (cell_center columns i) ch of
              None \<Rightarrow> out
            | Some err \<Rightarrow> out @ [WarnRender ch err])"
  using assms
  by (simp add: render_char_def py_mod_def py_floordiv_def py_truediv_def cell_center_def
      cell_entry_def Let_def split: option.splits)

lemma render_loop_closed_form:
  assumes "columns \<noteq> 0" "img_width \<noteq> 0" "img_height \<noteq> 0"
  shows "render_loop e fnt columns img_width img_height xs (img, cm, out) =
           (Inr (img\<lparr>im_drawn := im_drawn img @ drawn_glyphs e fnt columns xs\<rparr>,
                 store_entries columns img_width img_height xs cm),
            out @ render_warnings e fnt columns xs)"
proof (induction xs arbitrary: img cm out)
  case Nil
  show ?case
    by (simp add: drawn_glyphs_def store_entries_def render_warnings_def)
next
  case (Cons x xs)
  obtain i ch where x: "x = (i, ch)" by (cases x)
  show ?case
  proof (cases "draw_text_fails e fnt (cell_center columns (int i)) ch")
    case None
    then show ?thesis
      by (simp add: x render_char_ok[OF assms] Cons.IH drawn_glyphs_def store_entries_def
          render_warnings_def)
  next
    case (Some err)
    then show ?thesis
      by (simp add: x render_char_ok[OF assms] Cons.IH drawn_glyphs_def store_entries_def
          render_warnings_def)
  qed
qed

lemma render_loop_empty:
  "render_loop e fnt columns img_width img_height [] (img, cm, out) = (Inr (img, cm), out)"
  by simp

lemma rows_nonneg:
  assumes "1 \<le> columns"
  shows "0 \<le> math_ceil (of_nat n / of_int columns)"
proof -
  have "(0::real) \<le> of_nat n / of_int columns"
    using assms by simp
  then have "\<lceil>0::real\<rceil> \<le> \<lceil>of_nat n / of_int columns :: real\<rceil>"
    by (rule ceiling_mono)
  then show ?thesis by (simp add: math_ceil_def)
qed

lemma rows_pos:
  assumes "1 \<le> columns" "0 < n"
  shows "0 < math_ceil (of_nat n / of_int columns)"
proof -
  have "(0::real) < of_nat n / of_int columns"
    using assms by simp
  then show ?thesis by (simp add: math_ceil_def)
qed

lemma render_loop_sheet:
  assumes "1 \<le> columns"
  shows "render_loop e fnt columns (columns * CELL_SIZE)
           (math_ceil (of_nat (length cs) / of_int columns) * CELL_SIZE)
           (enumerate 0 cs) (img, cm, out) =
         (Inr (img\<lparr>im_drawn := im_drawn img @ drawn_glyphs e fnt columns (enumerate 0 cs)\<rparr>,
               store_entries columns (columns * CELL_SIZE)
                 (math_ceil (of_nat (length cs) / of_int columns) * CELL_SIZE)
                 (enumerate 0 cs) cm),
          out @ render_warnings e fnt columns (enumerate 0 cs))"
proof (cases "cs = []")
  case True
  then show ?thesis
    by (simp add: drawn_glyphs_def store_entries_def render_warnings_def)
next
  case False
  then have "0 < math_ceil (of_nat (length cs) / of_int columns)"
    using assms by (intro rows_pos) auto
  then have "math_ceil (of_nat (length cs) / of_int columns) * CELL_SIZE \<noteq> 0"
    by (simp add: CELL_SIZE_def)
  moreover have "columns \<noteq> 0" "columns * CELL_SIZE \<noteq> 0"
    using assms by (simp_all add: CELL_SIZE_def)
  ultimately show ?thesis
    by (intro render_loop_closed_form)
qed

lemma Image_new_sheet:
  assumes "1 \<le> columns"
  shows "Image_new (columns * CELL_SIZE) (math_ceil (of_nat n / of_int columns) * CELL_SIZE) =
         Inr \<lparr>im_width = columns * CELL_SIZE,
              im_height = math_ceil (of_nat n / of_int columns) * CELL_SIZE,
              im_drawn = []\<rparr>"
  using assms rows_nonneg[OF assms, of n]
  by (simp add: Image_new_def CELL_SIZE_def)

text \<open>What a successful run has written, for at least one column.\<close>

lemma generate_sprite_sheet_result:
  assumes "1 \<le> columns"
    and "fst (generate_sprite_sheet e font_name font_size output_dir character_set columns) = Inr r"
  shows "\<exists>font_path fnt actual_size out0 out1 probed.
           find_system_font e font_name = (Inr font_path, out0, probed) \<and>
           calculate_optimal_font_size e font_path font_size CELL_SIZE
             = (Inr (fnt, actual_size), out1) \<and>
           saved_metadata r =
             \<lparr>md_font_name = font_name,
              md_font_size = actual_size,
              md_cell_width = CELL_SIZE,
              md_cell_height = CELL_SIZE,
              md_columns = columns,
              md_rows = math_ceil (of_nat (length character_set) / of_int columns),
              md_image_width = columns * CELL_SIZE,
              md_image_height =
                math_ceil (of_nat (length character_set) / of_int columns) * CELL_SIZE,
              md_character_count = int (length character_set),
              md_character_map =
                store_entries columns (columns * CELL_SIZE)
                  (math_ceil (of_nat (length character_set) / of_int columns) * CELL_SIZE)
                  (enumerate 0 character_set) []\<rparr> \<and>
           saved_image r =
             \<lparr>im_width = columns * CELL_SIZE,
              im_height =
                math_ceil (of_nat (length character_set) / of_int columns) * CELL_SIZE,
              im_drawn = drawn_glyphs e fnt columns (enumerate 0 character_set)\<rparr> \<and>
           snd (generate_sprite_sheet e font_name font_size output_dir character_set columns)
             = out0 @ out1 @ render_warnings e fnt columns (enumerate 0 character_set)"
proof -
  obtain res0 out0 probed where f: "find_system_font e font_name = (res0, out0, probed)"
    by (cases "find_system_font e font_name") auto
  with assms(2) obtain font_path where fp: "res0 = Inr font_path"
    by (cases res0) (auto simp: generate_sprite_sheet_def)
  obtain res1 out1 where c: "calculate_optimal_font_size e font_path font_size CELL_SIZE = (res1, out1)"
    by (cases "calculate_optimal_font_size e font_path font_size CELL_SIZE") auto
  with assms(2) f fp obtain fnt actual_size where fa: "res1 = Inr (fnt, actual_size)"
    by (cases res1) (auto simp: generate_sprite_sheet_def)
  have cols: "columns \<noteq> 0" using assms(1) by simp
  from assms(2) show ?thesis
    unfolding generate_sprite_sheet_def
    by (auto simp: f fp c fa py_truediv_def cols Let_def Image_new_sheet[OF assms(1)]
        render_loop_sheet[OF assms(1)] split: option.splits)
qed

lemma generate_sprite_sheet_succeeds:
  assumes "1 \<le> columns"
    and "fst (find_system_font e font_name) = Inr font_path"
    and "fst (calculate_optimal_font_size e font_path font_size CELL_SIZE) = Inr (fnt, actual_size)"
    and "\<And>d. mkdir_fails e d = None" "\<And>p. save_fails e p = None" "\<And>p. open_fails e p = None"
  shows "\<exists>r. fst (generate_sprite_sheet e font_name font_size output_dir character_set columns) = Inr r"
proof -
  have cols: "columns \<noteq> 0" using assms(1) by simp
  obtain out0 probed where f: "find_system_font e font_name = (Inr font_path, out0, probed)"
    using assms(2) by (cases "find_system_font e font_name") auto
  obtain out1 where c: "calculate_optimal_font_size e font_path font_size CELL_SIZE
                          = (Inr (fnt, actual_size), out1)"
    using assms(3) by (cases "calculate_optimal_font_size e font_path font_size CELL_SIZE") auto
  show ?thesis
    unfolding generate_sprite_sheet_def
    by (simp add: f c assms(4-) py_truediv_def cols Let_def Image_new_sheet[OF assms(1)]
        render_loop_sheet[OF assms(1)])
qed

text \<open>A run completes only with at least one column.\<close>

lemma generate_sprite_sheet_columns:
  assumes "fst (generate_sprite_sheet e font_name font_size output_dir character_set columns) = Inr r"
  shows "1 \<le> columns"
proof (rule ccontr)
  assume "\<not> 1 \<le> columns"
  then consider "columns = 0" | "columns < 0" by linarith
  then show False
  proof cases
    case 1
    with assms show False
      by (auto simp: generate_sprite_sheet_def py_truediv_def
          split: prod.splits sum.splits)
  next
    case 2
    then have "columns * CELL_SIZE < 0"
      by (simp add: CELL_SIZE_def)
    then have "Image_new (columns * CELL_SIZE) h = Inl (ValueError ''Width and height must be >= 0'')"
      for h
      by (simp add: Image_new_def)
    with assms 2 show False
      by (auto simp: generate_sprite_sheet_def py_truediv_def Let_def
          split: prod.splits sum.splits)
  qed
qed

section \<open>Rounding\<close>

lemma round_half_even_bounds:
  "of_int (round_half_even q) \<le> q + 1 / 2 \<and> q - 1 / 2 \<le> of_int (round_half_even q)"
proof -
  define d where "d = q - of_int \<lfloor>q\<rfloor>"
  have d: "0 \<le> d" "d < 1"
    unfolding d_def by linarith+
  have q: "q = of_int \<lfloor>q\<rfloor> + d"
    by (simp add: d_def)
  consider "d < 1 / 2" | "1 / 2 < d" | "d = 1 / 2" by linarith
  then show ?thesis
  proof cases
    case 1
    then have "round_half_even q = \<lfloor>q\<rfloor>"
      by (simp add: round_half_even_def Let_def d_def)
    with d 1 q show ?thesis by linarith
  next
    case 2
    then have "round_half_even q = \<lfloor>q\<rfloor> + 1"
      by (simp add: round_half_even_def Let_def d_def)
    with d 2 q show ?thesis by simp
  next
    case 3
    then have "round_half_even q = \<lfloor>q\<rfloor> \<or> round_half_even q = \<lfloor>q\<rfloor> + 1"
      by (simp add: round_half_even_def Let_def d_def)
    with d 3 q show ?thesis by auto
  qed
qed

lemma round_half_even_of_int [simp]: "round_half_even (of_int n) = n"
  by (simp add: round_half_even_def)

lemma round_half_even_between:
  "\<lfloor>q\<rfloor> \<le> round_half_even q \<and> round_half_even q \<le> \<lfloor>q\<rfloor> + 1"
  by (simp add: round_half_even_def Let_def)

lemma round_half_even_mono:
  assumes "a \<le> b"
  shows "round_half_even a \<le> round_half_even b"
proof (cases "\<lfloor>a\<rfloor> = \<lfloor>b\<rfloor>")
  case True
  with assms have "a - of_int \<lfloor>b\<rfloor> \<le> b - of_int \<lfloor>b\<rfloor>" by simp
  with True show ?thesis
    by (auto simp: round_half_even_def Let_def)
next
  case False
  with assms have "\<lfloor>a\<rfloor> < \<lfloor>b\<rfloor>"
    by (simp add: floor_mono order.not_eq_order_implies_strict)
  then have "round_half_even a \<le> \<lfloor>b\<rfloor>"
    using round_half_even_between[of a] by linarith
  then show ?thesis
    using round_half_even_between[of b] by linarith
qed

lemma py_round_mono: "a \<le> b \<Longrightarrow> py_round a n \<le> py_round b n"
  by (simp add: py_round_def round_half_even_mono divide_right_mono mult_right_mono)

lemma py_round_of_int [simp]: "py_round (of_int k) n = of_int k"
proof -
  have "(of_int k :: real) * 10 ^ n = of_int (k * 10 ^ n)" by simp
  then have "round_half_even (of_int k * 10 ^ n) = k * 10 ^ n"
    by (simp only: round_half_even_of_int)
  then show ?thesis by (simp add: py_round_def)
qed

lemma py_round_0 [simp]: "py_round 0 n = 0"
  using py_round_of_int[of 0 n] by simp

lemma py_round_1 [simp]: "py_round 1 n = 1"
  using py_round_of_int[of 1 n] by simp

lemma py_round_error:
  "py_round q n \<le> q + 1 / (2 * 10 ^ n) \<and> q - 1 / (2 * 10 ^ n) \<le> py_round q n"
proof -
  define p :: real where "p = 10 ^ n"
  have p: "0 < p" by (simp add: p_def)
  from round_half_even_bounds[of "q * p"]
  have "of_int (round_half_even (q * p)) / p \<le> (q * p + 1 / 2) / p"
    and "(q * p - 1 / 2) / p \<le> of_int (round_half_even (q * p)) / p"
    using p by (simp_all add: divide_right_mono)
  moreover have "(q * p + 1 / 2) / p = q + 1 / (2 * p)" "(q * p - 1 / 2) / p = q - 1 / (2 * p)"
    using p by (simp_all add: field_simps)
  ultimately show ?thesis
    by (simp add: py_round_def p_def)
qed

lemma py_round_strict:
  assumes "a + 1 / 10 ^ n < b"
  shows "py_round a n < py_round b n"
proof -
  have "py_round a n \<le> a + 1 / (2 * 10 ^ n)" "b - 1 / (2 * 10 ^ n) \<le> py_round b n"
    using py_round_error[of a n] py_round_error[of b n] by simp_all
  moreover have "a + 1 / (2 * 10 ^ n) < b - 1 / (2 * 10 ^ n)"
  proof -
    have "(1::real) / 10 ^ n = 1 / (2 * 10 ^ n) + 1 / (2 * 10 ^ n)"
      by (simp add: field_simps)
    with assms show ?thesis by linarith
  qed
  ultimately show ?thesis by linarith
qed

lemma py_round_grid: "py_round (of_int k / 10 ^ n) n = of_int k / 10 ^ n"
  by (simp add: py_round_def)

section \<open>The dictionary\<close>

lemma store_entries_Nil [simp]: "store_entries c w h [] cm = cm"
  by (simp add: store_entries_def)

lemma store_entries_Cons [simp]:
  "store_entries c w h ((i, ch) # xs) cm =
     store_entries c w h xs (AList.update ch (cell_entry c w h (int i)) cm)"
  by (simp add: store_entries_def)

lemma store_entries_append:
  "store_entries c w h (xs @ ys) cm = store_entries c w h ys (store_entries c w h xs cm)"
  by (simp add: store_entries_def)

lemma store_entries_keys:
  "fst ` set (store_entries c w h xs cm) = fst ` set cm \<union> snd ` set xs"
proof (induction xs arbitrary: cm)
  case Nil
  show ?case by simp
next
  case (Cons x xs)
  obtain i ch where "x = (i, ch)" by (cases x)
  then show ?case
    by (simp add: Cons.IH AList.dom_update)
qed

lemma store_entries_distinct:
  "distinct (map fst cm) \<Longrightarrow> distinct (map fst (store_entries c w h xs cm))"
proof (induction xs arbitrary: cm)
  case Nil
  then show ?case by simp
next
  case (Cons x xs)
  obtain i ch where "x = (i, ch)" by (cases x)
  with Cons show ?case
    by (simp add: AList.distinct_update)
qed

lemma store_entries_other:
  "ch \<notin> snd ` set xs \<Longrightarrow> map_of (store_entries c w h xs cm) ch = map_of cm ch"
proof (induction xs arbitrary: cm)
  case Nil
  show ?case by simp
next
  case (Cons x xs)
  obtain i k where x: "x = (i, k)" by (cases x)
  with Cons.prems have "k \<noteq> ch" "ch \<notin> snd ` set xs" by auto
  with Cons.IH x show ?case
    by (simp add: AList.update_conv')
qed

lemma store_entries_last:
  assumes "ch \<notin> snd ` set ys"
  shows "map_of (store_entries c w h (xs @ (i, ch) # ys) cm) ch = Some (cell_entry c w h (int i))"
  using assms
  by (simp add: store_entries_append store_entries_other AList.update_conv')

lemma set_update_subset: "set (AList.update k v al) \<subseteq> insert (k, v) (set al)"
  by (induction al) auto

lemma store_entries_origin:
  "(ch, g) \<in> set (store_entries c w h xs cm) \<Longrightarrow>
   (ch, g) \<in> set cm \<or> (\<exists>i. (i, ch) \<in> set xs \<and> g = cell_entry c w h (int i))"
proof (induction xs arbitrary: cm)
  case Nil
  then show ?case by simp
next
  case (Cons x xs)
  obtain i k where x: "x = (i, k)" by (cases x)
  from Cons.prems x
  have "(ch, g) \<in> set (store_entries c w h xs (AList.update k (cell_entry c w h (int i)) cm))"
    by simp
  from Cons.IH[OF this] show ?case
  proof
    assume "(ch, g) \<in> set (AList.update k (cell_entry c w h (int i)) cm)"
    with set_update_subset[of k "cell_entry c w h (int i)" cm]
    have "(ch, g) = (k, cell_entry c w h (int i)) \<or> (ch, g) \<in> set cm" by auto
    with x show ?thesis by auto
  next
    assume "\<exists>j. (j, ch) \<in> set xs \<and> g = cell_entry c w h (int j)"
    with x show ?thesis by auto
  qed
qed

lemma snd_set_enumerate: "snd ` set (enumerate n cs) = set cs"
proof -
  have "set (map snd (enumerate n cs)) = set cs"
    by (simp only: map_snd_enumerate)
  then show ?thesis by (simp only: set_map)
qed

lemma enumerate_split:
  assumes "i < length cs"
  shows "enumerate 0 cs =
           enumerate 0 (take i cs) @ (i, cs ! i) # enumerate (Suc i) (drop (Suc i) cs)"
proof -
  have "enumerate 0 cs = enumerate 0 (take i cs @ cs ! i # drop (Suc i) cs)"
    using assms by (simp add: id_take_nth_drop[symmetric])
  also have "\<dots> = enumerate 0 (take i cs) @ enumerate (0 + length (take i cs)) (cs ! i # drop (Suc i) cs)"
    by (rule enumerate_append_eq)
  also have "\<dots> = enumerate 0 (take i cs) @ (i, cs ! i) # enumerate (Suc i) (drop (Suc i) cs)"
    using assms by simp
  finally show ?thesis .
qed

text \<open>The entry of a character is the one stored at its last occurrence.\<close>

lemma stored_last_occurrence:
  assumes "i < length cs" "cs ! i \<notin> set (drop (Suc i) cs)"
  shows "map_of (store_entries c w h (enumerate 0 cs) cm) (cs ! i) = Some (cell_entry c w h (int i))"
proof -
  have "cs ! i \<notin> snd ` set (enumerate (Suc i) (drop (Suc i) cs))"
    using assms(2) by (simp add: snd_set_enumerate)
  then show ?thesis
    unfolding enumerate_split[OF assms(1)] by (rule store_entries_last)
qed

lemma stored_keys: "fst ` set (store_entries c w h (enumerate 0 cs) []) = set cs"
  by (simp add: store_entries_keys snd_set_enumerate)

lemma stored_distinct: "distinct (map fst (store_entries c w h (enumerate 0 cs) []))"
  by (simp add: store_entries_distinct)

lemma stored_length: "length (store_entries c w h (enumerate 0 cs) []) = card (set cs)"
proof -
  have "length (store_entries c w h (enumerate 0 cs) [])
          = length (map fst (store_entries c w h (enumerate 0 cs) []))" by simp
  also have "\<dots> = card (set (map fst (store_entries c w h (enumerate 0 cs) [])))"
    by (rule distinct_card[symmetric]) (rule stored_distinct)
  also have "\<dots> = card (set cs)"
    by (simp add: stored_keys)
  finally show ?thesis .
qed

lemma stored_origin:
  assumes "(ch, g) \<in> set (store_entries c w h (enumerate 0 cs) [])"
  shows "\<exists>i<length cs. cs ! i = ch \<and> g = cell_entry c w h (int i)"
proof -
  from store_entries_origin[OF assms] obtain i where
    "(i, ch) \<in> set (enumerate 0 cs)" "g = cell_entry c w h (int i)" by auto
  then show ?thesis
    by (auto simp: in_set_enumerate_eq)
qed


lemma last_occurrence_exists:
  assumes "ch \<in> set cs"
  shows "\<exists>i<length cs. cs ! i = ch \<and> ch \<notin> set (drop (Suc i) cs)"
proof -
  from split_list_last[OF assms] obtain ys zs where "cs = ys @ ch # zs" "ch \<notin> set zs"
    by blast
  then have "length ys < length cs \<and> cs ! length ys = ch \<and> ch \<notin> set (drop (Suc (length ys)) cs)"
    by simp
  then show ?thesis by blast
qed

lemma map_sum_Inr_D: "map_sum f g x = Inr y \<Longrightarrow> \<exists>r. x = Inr r \<and> g r = y"
  by (cases x) auto

section \<open>Drawing does not reach the font steps\<close>

lemma probe_paths_draw [simp]:
  "probe_paths (e\<lparr>draw_text_fails := d\<rparr>) ps probed = probe_paths e ps probed"
  by (induction ps arbitrary: probed) auto

lemma ImageFont_load_default_draw [simp]:
  "ImageFont_load_default (e\<lparr>draw_text_fails := d\<rparr>) = ImageFont_load_default e"
  by (simp add: ImageFont_load_default_def)

lemma ImageFont_truetype_draw [simp]:
  "ImageFont_truetype (e\<lparr>draw_text_fails := d\<rparr>) path sz = ImageFont_truetype e path sz"
  by (simp add: ImageFont_truetype_def)

lemma find_system_font_draw [simp]:
  "find_system_font (e\<lparr>draw_text_fails := d\<rparr>) font_name = find_system_font e font_name"
  by (simp add: find_system_font_def cong: prod.case_cong option.case_cong)

lemma measure_loop_draw [simp]:
  "measure_loop (e\<lparr>draw_text_fails := d\<rparr>) f cs acc = measure_loop e f cs acc"
proof (induction cs arbitrary: acc)
  case Nil
  show ?case by (cases acc) simp
next
  case (Cons c cs)
  show ?case by (cases acc) (simp add: Cons.IH split: sum.splits)
qed

lemma probe_measure_draw [simp]:
  "probe_measure (e\<lparr>draw_text_fails := d\<rparr>) f = probe_measure e f"
  by (simp add: probe_measure_def)

lemma try_size_draw [simp]:
  "try_size (e\<lparr>draw_text_fails := d\<rparr>) path sz m = try_size e path sz m"
  by (simp add: try_size_def cong: sum.case_cong)

lemma size_loop_draw [simp]:
  "size_loop (e\<lparr>draw_text_fails := d\<rparr>) fp m cands out = size_loop e fp m cands out"
  by (induction cands arbitrary: out) (auto split: font_handle.splits sum.splits option.splits)

lemma calculate_optimal_font_size_draw [simp]:
  "calculate_optimal_font_size (e\<lparr>draw_text_fails := d\<rparr>) fp initial_size target_size =
     calculate_optimal_font_size e fp initial_size target_size"
  by (simp add: calculate_optimal_font_size_def
      cong: prod.case_cong option.case_cong sum.case_cong font_handle.case_cong)

lemma generate_sprite_sheet_metadata_draw:
  assumes "1 \<le> columns"
  shows "map_sum id saved_metadata
           (fst (generate_sprite_sheet (e\<lparr>draw_text_fails := d\<rparr>) font_name font_size
                   output_dir character_set columns)) =
         map_sum id saved_metadata
           (fst (generate_sprite_sheet e font_name font_size output_dir character_set columns))"
proof -
  have cols: "columns \<noteq> 0" using assms by simp
  show ?thesis
    unfolding generate_sprite_sheet_def
    by (simp add: py_truediv_def cols Let_def Image_new_sheet[OF assms]
        render_loop_sheet[OF assms] split: prod.splits sum.splits option.splits)
qed

section \<open>The example machine, evaluated\<close>

lemma find_Sans_demo:
  "find_system_font demo_env ''Sans'' =
     (Inr (PathStr dejavu_path), [], ''Sans'' # take 5 (font_paths ''Sans'') @ [dejavu_path])"
proof -
  have "probe_paths demo_env (take 5 (font_paths ''Sans'') @ dejavu_path # drop 6 (font_paths ''Sans''))
          [''Sans''] = (Some dejavu_path, [''Sans''] @ take 5 (font_paths ''Sans'') @ [dejavu_path])"
    by (rule probe_paths_first) (use Sans_pre_absent in \<open>simp_all add: demo_env_def\<close>)
  then have "probe_paths demo_env (font_paths ''Sans'') [''Sans'']
          = (Some dejavu_path, [''Sans''] @ take 5 (font_paths ''Sans'') @ [dejavu_path])"
    using font_paths_Sans by simp
  moreover have "\<not> path_exists demo_env ''Sans''"
    using Sans_absent by (simp add: demo_env_def)
  ultimately show ?thesis
    by (simp add: find_system_font_def)
qed

lemma truetype_demo: "truetype_fails demo_env dejavu_path sz = None"
  by (simp add: demo_env_def)

lemma try_size_demo:
  "try_size demo_env dejavu_path sz 12 =
     (if sz \<le> 10 then Inr (Some (FreeTypeFont dejavu_path sz, sz)) else Inr None)"
  by (simp add: try_size_def ImageFont_truetype_def truetype_demo probe_measure_demo)

lemma range_down_12: "range_down 12 4 = [12, 11, 10, 9, 8, 7, 6, 5]"
  by (simp add: range_down_upto upto.simps)

lemma fitter_demo_12:
  "calculate_optimal_font_size demo_env (PathStr dejavu_path) 12 CELL_SIZE =
     (Inr (FreeTypeFont dejavu_path 10, 10), [])"
  by (simp add: calculate_optimal_font_size_def CELL_SIZE_def range_down_12 try_size_demo)

lemma demo_io:
  "mkdir_fails demo_env d = None" "save_fails demo_env p = None" "open_fails demo_env p = None"
  by (simp_all add: demo_env_def)

lemma generate_sprite_sheet_demo:
  assumes "1 \<le> columns"
  shows "map_sum id saved_metadata
           (fst (generate_sprite_sheet demo_env ''Sans'' 12 output_dir character_set columns)) =
         Inr \<lparr>md_font_name = ''Sans'',
              md_font_size = 10,
              md_cell_width = 16,
              md_cell_height = 16,
              md_columns = columns,
              md_rows = math_ceil (of_nat (length character_set) / of_int columns),
              md_image_width = columns * 16,
              md_image_height = math_ceil (of_nat (length character_set) / of_int columns) * 16,
              md_character_count = int (length character_set),
              md_character_map =
                store_entries columns (columns * 16)
                  (math_ceil (of_nat (length character_set) / of_int columns) * 16)
                  (enumerate 0 character_set) []\<rparr>"
proof -
  have f: "fst (find_system_font demo_env ''Sans'') = Inr (PathStr dejavu_path)"
    by (simp add: find_Sans_demo)
  have c: "fst (calculate_optimal_font_size demo_env (PathStr dejavu_path) 12 CELL_SIZE)
             = Inr (FreeTypeFont dejavu_path 10, 10)"
    by (simp add: fitter_demo_12)
  from generate_sprite_sheet_succeeds[OF assms f c demo_io, of output_dir character_set]
  obtain r where r: "fst (generate_sprite_sheet demo_env ''Sans'' 12 output_dir character_set columns)
                       = Inr r"
    by blast
  from generate_sprite_sheet_result[OF assms r] show ?thesis
    by (auto simp: r find_Sans_demo fitter_demo_12[unfolded CELL_SIZE_def] CELL_SIZE_def)
qed

lemma length_DEFAULT_CHARACTER_SET: "length DEFAULT_CHARACTER_SET = 96"
  by (simp add: DEFAULT_CHARACTER_SET_def)

lemma DEFAULT_CHARACTER_SET_repeats: "\<not> distinct DEFAULT_CHARACTER_SET"
  by (simp add: DEFAULT_CHARACTER_SET_def backslash_def)

lemma ceiling_one_divide_numeral:
  "\<lceil>1 / numeral b :: real\<rceil> = - (- 1 div numeral b)"
  using ceiling_divide_eq_div[of 1 "numeral b"] by simp


lemma store_AB:
  "store_entries 10 160 16 (enumerate 0 ''AB'') [] =
     [(CHR ''A'', \<lparr>g_index = 0, g_x = 0, g_y = 0, g_u0 = 0, g_v0 = 0,
                     g_u1 = 1 / 10, g_v1 = 1\<rparr>),
      (CHR ''B'', \<lparr>g_index = 1, g_x = 16, g_y = 0, g_u0 = 1 / 10, g_v0 = 0,
                     g_u1 = 1 / 5, g_v1 = 1\<rparr>)]"
  by (simp add: cell_entry_def CELL_SIZE_def py_round_def round_half_even_def)


lemma store_A_wide:
  "store_entries 3000000 48000000 16 (enumerate 0 ''A'') [] =
     [(CHR ''A'', \<lparr>g_index = 0, g_x = 0, g_y = 0, g_u0 = 0, g_v0 = 0,
                     g_u1 = 0, g_v1 = 1\<rparr>)]"
  by (simp add: cell_entry_def CELL_SIZE_def py_round_def round_half_even_def)


lemma sheet_demo_AB:
  "map_sum id saved_metadata (fst (generate_sprite_sheet demo_env ''Sans'' 12 ''out'' ''AB'' 10)) =
     Inr \<lparr>md_font_name = ''Sans'', md_font_size = 10, md_cell_width = 16, md_cell_height = 16,
          md_columns = 10, md_rows = 1, md_image_width = 160, md_image_height = 16,
          md_character_count = 2,
          md_character_map =
            [(CHR ''A'', \<lparr>g_index = 0, g_x = 0, g_y = 0, g_u0 = 0, g_v0 = 0,
                            g_u1 = 1 / 10, g_v1 = 1\<rparr>),
             (CHR ''B'', \<lparr>g_index = 1, g_x = 16, g_y = 0, g_u0 = 1 / 10, g_v0 = 0,
                            g_u1 = 1 / 5, g_v1 = 1\<rparr>)]\<rparr>"
  using generate_sprite_sheet_demo[of 10 "''out''" "''AB''"] store_AB
  by (simp add: math_ceil_def ceiling_one_divide_numeral)


lemma sheet_demo_A_wide:
  "map_sum id saved_metadata
     (fst (generate_sprite_sheet demo_env ''Sans'' 12 ''out'' ''A'' 3000000)) =
     Inr \<lparr>md_font_name = ''Sans'', md_font_size = 10, md_cell_width = 16, md_cell_height = 16,
          md_columns = 3000000, md_rows = 1, md_image_width = 48000000, md_image_height = 16,
          md_character_count = 1,
          md_character_map =
            [(CHR ''A'', \<lparr>g_index = 0, g_x = 0, g_y = 0, g_u0 = 0, g_v0 = 0,
                            g_u1 = 0, g_v1 = 1\<rparr>)]\<rparr>"
  using generate_sprite_sheet_demo[of 3000000 "''out''" "''A''"] store_A_wide
  by (simp add: math_ceil_def ceiling_one_divide_numeral)

lemma no_B_env_draw: "no_B_env = demo_env\<lparr>draw_text_fails :=
     (\<lambda>f xy c. if c = CHR ''B'' then Some (LibError ''glyph not found'') else None)\<rparr>"
  by (simp add: no_B_env_def)

lemma sheet_no_B_ABA:
  "map_sum id saved_metadata
     (fst (generate_sprite_sheet no_B_env ''Sans'' 12 ''out'' ''ABA'' 10)) =
     Inr \<lparr>md_font_name = ''Sans'', md_font_size = 10, md_cell_width = 16, md_cell_height = 16,
          md_columns = 10, md_rows = 1, md_image_width = 160, md_image_height = 16,
          md_character_count = 3,
          md_character_map =
            [(CHR ''A'', \<lparr>g_index = 2, g_x = 32, g_y = 0, g_u0 = 1 / 5, g_v0 = 0,
                            g_u1 = 3 / 10, g_v1 = 1\<rparr>),
             (CHR ''B'', \<lparr>g_index = 1, g_x = 16, g_y = 0, g_u0 = 1 / 10, g_v0 = 0,
                            g_u1 = 1 / 5, g_v1 = 1\<rparr>)]\<rparr>"
proof -
  have "store_entries 10 160 16 (enumerate 0 ''ABA'') [] =
     [(CHR ''A'', \<lparr>g_index = 2, g_x = 32, g_y = 0, g_u0 = 1 / 5, g_v0 = 0,
                     g_u1 = 3 / 10, g_v1 = 1\<rparr>),
      (CHR ''B'', \<lparr>g_index = 1, g_x = 16, g_y = 0, g_u0 = 1 / 10, g_v0 = 0,
                     g_u1 = 1 / 5, g_v1 = 1\<rparr>)]"
    by (simp add: cell_entry_def CELL_SIZE_def py_round_def round_half_even_def)
  with generate_sprite_sheet_demo[of 10 "''out''" "''ABA''"]
  have "map_sum id saved_metadata
     (fst (generate_sprite_sheet demo_env ''Sans'' 12 ''out'' ''ABA'' 10)) =
     Inr \<lparr>md_font_name = ''Sans'', md_font_size = 10, md_cell_width = 16, md_cell_height = 16,
          md_columns = 10, md_rows = 1, md_image_width = 160, md_image_height = 16,
          md_character_count = 3,
          md_character_map =
            [(CHR ''A'', \<lparr>g_index = 2, g_x = 32, g_y = 0, g_u0 = 1 / 5, g_v0 = 0,
                            g_u1 = 3 / 10, g_v1 = 1\<rparr>),
             (CHR ''B'', \<lparr>g_index = 1, g_x = 16, g_y = 0, g_u0 = 1 / 10, g_v0 = 0,
                            g_u1 = 1 / 5, g_v1 = 1\<rparr>)]\<rparr>"
    by (simp add: math_ceil_def)
  then show ?thesis
    unfolding no_B_env_draw
    by (simp only: generate_sprite_sheet_metadata_draw[of 10, simplified])
qed

section \<open>Grid arithmetic\<close>

lemma rows_bounds:
  assumes "1 \<le> columns"
  shows "columns * (math_ceil (of_nat n / of_int columns) - 1) < int n \<and>
         int n \<le> columns * math_ceil (of_nat n / of_int columns)"
proof -
  define q :: real where "q = of_nat n / of_int columns"
  have c: "(0::real) < of_int columns" using assms by simp
  have n: "of_int (int n) = q * of_int columns"
    using c by (simp add: q_def)
  have "of_int \<lceil>q\<rceil> - 1 < q" "q \<le> of_int \<lceil>q\<rceil>"
    by linarith+
  then have "(of_int \<lceil>q\<rceil> - 1) * of_int columns < q * of_int columns"
    and "q * of_int columns \<le> of_int \<lceil>q\<rceil> * of_int columns"
    using c by (simp_all add: mult_strict_right_mono mult_right_mono)
  then have "(of_int (columns * (\<lceil>q\<rceil> - 1)) :: real) < of_int (int n)"
    and "(of_int (int n) :: real) \<le> of_int (columns * \<lceil>q\<rceil>)"
    unfolding n by (simp_all add: mult.commute)
  then have "columns * (\<lceil>q\<rceil> - 1) < int n" "int n \<le> columns * \<lceil>q\<rceil>"
    by (simp_all only: of_int_less_iff of_int_le_iff)
  then show ?thesis
    by (simp add: math_ceil_def q_def)
qed

lemma row_index_below_rows:
  assumes "1 \<le> columns" "i < n"
  shows "int i div columns < math_ceil (of_nat n / of_int columns)"
proof -
  have "0 \<le> int i mod columns"
    using assms(1) by simp
  moreover have "int i = int i div columns * columns + int i mod columns"
    by simp
  ultimately have "int i div columns * columns \<le> int i"
    by linarith
  with assms(2) rows_bounds[OF assms(1), of n]
  have "int i div columns * columns < columns * math_ceil (of_nat n / of_int columns)"
    by linarith
  then have "columns * (int i div columns) < columns * math_ceil (of_nat n / of_int columns)"
    by (simp add: mult.commute)
  with assms(1) show ?thesis
    by (simp add: mult_less_cancel_left_pos)
qed

text \<open>
  The two rounded ends of cell \<open>k\<close> out of \<open>m\<close> cells of 16 units each.
\<close>

lemma rounded_cell_ends:
  fixes k m :: int
  assumes "0 \<le> k" "k < m"
  defines "a \<equiv> (of_int (k * 16) / of_int (m * 16) :: real)"
    and "b \<equiv> (of_int (k * 16 + 16) / of_int (m * 16) :: real)"
  shows "0 \<le> py_round a 6" "py_round a 6 \<le> py_round b 6" "py_round b 6 \<le> 1"
    "\<bar>(py_round b 6 - py_round a 6) - 16 / of_int (m * 16)\<bar> \<le> 1 / 10 ^ 6"
    "m \<le> 10 ^ 6 \<Longrightarrow> py_round a 6 < py_round b 6"
proof -
  have m: "(0::real) < of_int m" using assms by simp
  have a: "a = of_int k / of_int m" and b: "b = (of_int k + 1) / of_int m"
    using m by (simp_all add: a_def b_def field_simps)
  have a0: "0 \<le> a" using assms m by (simp add: a)
  have ab: "a \<le> b" using m by (simp add: a b divide_right_mono)
  have "of_int k + 1 \<le> (of_int m :: real)"
    using assms(2) by (metis of_int_1 of_int_add of_int_le_iff zless_imp_add1_zle)
  then have b1: "b \<le> 1" using m by (simp add: b)
  from a0 show "0 \<le> py_round a 6"
    using py_round_mono[of 0 a 6] by simp
  from ab show "py_round a 6 \<le> py_round b 6"
    by (rule py_round_mono)
  from b1 show "py_round b 6 \<le> 1"
    using py_round_mono[of b 1 6] by simp
  have diff: "b - a = 1 / of_int m"
    using m by (simp add: a b field_simps)
  have step: "(16::real) / of_int (m * 16) = 1 / of_int m"
    using m by simp
  define t :: real where "t = 1 / (2 * 10 ^ 6)"
  have t: "t + t = 1 / 10 ^ 6" by (simp add: t_def)
  have "py_round a 6 \<le> a + t" "a - t \<le> py_round a 6"
    "py_round b 6 \<le> b + t" "b - t \<le> py_round b 6"
    unfolding t_def using py_round_error[of a 6] py_round_error[of b 6] by blast+
  then have "(py_round b 6 - py_round a 6) - (b - a) \<le> t + t"
    and "- (t + t) \<le> (py_round b 6 - py_round a 6) - (b - a)"
    by linarith+
  then have "\<bar>(py_round b 6 - py_round a 6) - (b - a)\<bar> \<le> t + t"
    by (rule abs_leI[OF _ iffD1[OF minus_le_iff]])
  then have "\<bar>(py_round b 6 - py_round a 6) - (b - a)\<bar> \<le> 1 / 10 ^ 6"
    by (simp only: t)
  then show "\<bar>(py_round b 6 - py_round a 6) - 16 / of_int (m * 16)\<bar> \<le> 1 / 10 ^ 6"
    by (simp only: diff step)
  show "py_round a 6 < py_round b 6" if "m \<le> 10 ^ 6"
  proof (cases "m = 10 ^ 6")
    case True
    then have "a = of_int k / 10 ^ 6" "b = of_int (k + 1) / 10 ^ 6"
      by (simp_all add: a b)
    then have "py_round a 6 = of_int k / 10 ^ 6" "py_round b 6 = of_int (k + 1) / 10 ^ 6"
      by (simp_all only: py_round_grid)
    then show ?thesis by simp
  next
    case False
    with that have "m < 10 ^ 6" by simp
    then have "(of_int m :: real) < 10 ^ 6"
      by (metis of_int_less_iff of_int_numeral of_int_power)
    then have "(1::real) / 10 ^ 6 < 1 / of_int m"
      using m by (simp add: frac_less2)
    then have "a + 1 / 10 ^ 6 < b"
      using diff by linarith
    then show ?thesis by (rule py_round_strict)
  qed
qed

section \<open>Claims about the sprite sheet\<close>

text \<open>
  Claim C3. For every character set and every \<open>columns \<ge> 1\<close>, the metadata of a run that
  completes has \<open>rows = ceil(character_count / columns)\<close>, that is, the least number of rows
  of \<open>columns\<close> cells holding all the characters, \<open>image_width = columns * cell_size\<close> and
  \<open>image_height = rows * cell_size\<close>, with \<open>cell_size = 16\<close> and \<open>character_count\<close> the length
  of the character set; the canvas has the same size.
\<close>

theorem grid_geometry:
  assumes "1 \<le> columns"
    and "fst (generate_sprite_sheet e font_name font_size output_dir character_set columns) = Inr r"
  shows "md_rows (saved_metadata r) = \<lceil>(of_nat (length character_set) / of_int columns :: real)\<rceil> \<and>
         columns * (md_rows (saved_metadata r) - 1) < int (length character_set) \<and>
         int (length character_set) \<le> columns * md_rows (saved_metadata r) \<and>
         md_image_width (saved_metadata r) = columns * CELL_SIZE \<and>
         md_image_height (saved_metadata r) = md_rows (saved_metadata r) * CELL_SIZE \<and>
         CELL_SIZE = 16 \<and>
         md_character_count (saved_metadata r) = int (length character_set) \<and>
         md_columns (saved_metadata r) = columns \<and>
         md_cell_width (saved_metadata r) = CELL_SIZE \<and>
         md_cell_height (saved_metadata r) = CELL_SIZE \<and>
         im_width (saved_image r) = md_image_width (saved_metadata r) \<and>
         im_height (saved_image r) = md_image_height (saved_metadata r)"
proof -
  from generate_sprite_sheet_result[OF assms] obtain actual_size cm drawn where
    md: "saved_metadata r =
             \<lparr>md_font_name = font_name,
              md_font_size = actual_size,
              md_cell_width = CELL_SIZE,
              md_cell_height = CELL_SIZE,
              md_columns = columns,
              md_rows = math_ceil (of_nat (length character_set) / of_int columns),
              md_image_width = columns * CELL_SIZE,
              md_image_height =
                math_ceil (of_nat (length character_set) / of_int columns) * CELL_SIZE,
              md_character_count = int (length character_set),
              md_character_map = cm\<rparr>"
    and im: "saved_image r =
             \<lparr>im_width = columns * CELL_SIZE,
              im_height =
                math_ceil (of_nat (length character_set) / of_int columns) * CELL_SIZE,
              im_drawn = drawn\<rparr>"
    by blast
  from rows_bounds[OF assms(1), of "length character_set"] show ?thesis
    by (simp add: md im) (simp add: math_ceil_def CELL_SIZE_def)
qed

theorem grid_geometry_witness:
  "\<exists>r. fst (generate_sprite_sheet demo_env ''Sans'' 12 ''out'' DEFAULT_CHARACTER_SET 10) = Inr r \<and>
       md_character_count (saved_metadata r) = 96 \<and>
       md_rows (saved_metadata r) = 10 \<and>
       md_image_width (saved_metadata r) = 160 \<and>
       md_image_height (saved_metadata r) = 160"
proof -
  have "\<exists>r. fst (generate_sprite_sheet demo_env ''Sans'' 12 ''out'' DEFAULT_CHARACTER_SET 10) = Inr r"
    using generate_sprite_sheet_demo[of 10 "''out''" DEFAULT_CHARACTER_SET]
    by (cases "fst (generate_sprite_sheet demo_env ''Sans'' 12 ''out'' DEFAULT_CHARACTER_SET 10)")
      simp_all
  then obtain r where
    r: "fst (generate_sprite_sheet demo_env ''Sans'' 12 ''out'' DEFAULT_CHARACTER_SET 10) = Inr r"
    by blast
  have "(1::int) \<le> 10" by simp
  from grid_geometry[OF this r] r show ?thesis
    by (intro exI[of _ r]) (simp add: length_DEFAULT_CHARACTER_SET CELL_SIZE_def)
qed

text \<open>
  Claim C4, as amended. For every non-empty character set and every \<open>columns \<ge> 1\<close>, every
  entry of the emitted \<open>character_map\<close> has \<open>0 \<le> u0 \<le> u1 \<le> 1\<close> and \<open>0 \<le> v0 \<le> v1 \<le> 1\<close>, and
  \<open>u1 - u0\<close> differs from \<open>cell_size / image_width\<close> (and \<open>v1 - v0\<close> from
  \<open>cell_size / image_height\<close>) by at most one millionth, the stored values being the ratios rounded
  to 6 decimal digits. The inequality \<open>u0 < u1\<close> is strict when there are at most a million
  columns, and \<open>v0 < v1\<close> when there are at most a million rows.
\<close>

theorem uv_bounds_after_rounding:
  assumes "1 \<le> columns"
    and "fst (generate_sprite_sheet e font_name font_size output_dir character_set columns) = Inr r"
    and "(ch, g) \<in> set (md_character_map (saved_metadata r))"
  shows "0 \<le> g_u0 g \<and> g_u0 g \<le> g_u1 g \<and> g_u1 g \<le> 1 \<and>
         0 \<le> g_v0 g \<and> g_v0 g \<le> g_v1 g \<and> g_v1 g \<le> 1 \<and>
         \<bar>(g_u1 g - g_u0 g) - of_int CELL_SIZE / of_int (md_image_width (saved_metadata r))\<bar>
           \<le> 1 / 10 ^ 6 \<and>
         \<bar>(g_v1 g - g_v0 g) - of_int CELL_SIZE / of_int (md_image_height (saved_metadata r))\<bar>
           \<le> 1 / 10 ^ 6 \<and>
         (columns \<le> 10 ^ 6 \<longrightarrow> g_u0 g < g_u1 g) \<and>
         (md_rows (saved_metadata r) \<le> 10 ^ 6 \<longrightarrow> g_v0 g < g_v1 g)"
proof -
  define rows where "rows = math_ceil (of_nat (length character_set) / of_int columns)"
  from generate_sprite_sheet_result[OF assms(1,2)]
  have w: "md_image_width (saved_metadata r) = columns * 16"
    and h: "md_image_height (saved_metadata r) = rows * 16"
    and rs: "md_rows (saved_metadata r) = rows"
    and cm: "md_character_map (saved_metadata r) =
               store_entries columns (columns * 16) (rows * 16) (enumerate 0 character_set) []"
    by (auto simp: rows_def CELL_SIZE_def)
  from assms(3) stored_origin[of ch g columns "columns * 16" "rows * 16" character_set]
  obtain i where i: "i < length character_set"
    and g: "g = cell_entry columns (columns * 16) (rows * 16) (int i)"
    by (auto simp: cm)
  have k: "0 \<le> int i mod columns" "int i mod columns < columns"
    using assms(1) by simp_all
  have l: "0 \<le> int i div columns" "int i div columns < rows"
    using assms(1) row_index_below_rows[OF assms(1) i] by (simp_all add: rows_def pos_imp_zdiv_nonneg_iff)
  note u = rounded_cell_ends[OF k]
  note v = rounded_cell_ends[OF l]
  have gu: "g_u0 g = py_round (of_int (int i mod columns * 16) / of_int (columns * 16)) 6"
    "g_u1 g = py_round (of_int (int i mod columns * 16 + 16) / of_int (columns * 16)) 6"
    and gv: "g_v0 g = py_round (of_int (int i div columns * 16) / of_int (rows * 16)) 6"
    "g_v1 g = py_round (of_int (int i div columns * 16 + 16) / of_int (rows * 16)) 6"
    by (simp_all add: g cell_entry_def CELL_SIZE_def)
  have cs: "(of_int CELL_SIZE :: real) = 16" by (simp add: CELL_SIZE_def)
  show ?thesis
    unfolding gu gv w h rs cs
    using u v by blast
qed

theorem uv_bounds_after_rounding_witness:
  "\<exists>r. fst (generate_sprite_sheet demo_env ''Sans'' 12 ''out'' ''AB'' 10) = Inr r \<and>
       (CHR ''B'', \<lparr>g_index = 1, g_x = 16, g_y = 0, g_u0 = 1 / 10, g_v0 = 0,
                      g_u1 = 1 / 5, g_v1 = 1\<rparr>) \<in> set (md_character_map (saved_metadata r)) \<and>
       (1 / 10 :: real) < 1 / 5 \<and> (0 :: real) < 1 \<and>
       \<bar>(1 / 5 - 1 / 10) - (16 :: real) / 160\<bar> \<le> 1 / 10 ^ 6"
proof -
  from map_sum_Inr_D[OF sheet_demo_AB] obtain r where
    r: "fst (generate_sprite_sheet demo_env ''Sans'' 12 ''out'' ''AB'' 10) = Inr r"
    and md: "saved_metadata r =
      \<lparr>md_font_name = ''Sans'', md_font_size = 10, md_cell_width = 16, md_cell_height = 16,
          md_columns = 10, md_rows = 1, md_image_width = 160, md_image_height = 16,
          md_character_count = 2,
          md_character_map =
            [(CHR ''A'', \<lparr>g_index = 0, g_x = 0, g_y = 0, g_u0 = 0, g_v0 = 0,
                            g_u1 = 1 / 10, g_v1 = 1\<rparr>),
             (CHR ''B'', \<lparr>g_index = 1, g_x = 16, g_y = 0, g_u0 = 1 / 10, g_v0 = 0,
                            g_u1 = 1 / 5, g_v1 = 1\<rparr>)]\<rparr>"
    by blast
  have c: "(1::int) \<le> 10" by simp
  have m: "(CHR ''B'', \<lparr>g_index = 1, g_x = 16, g_y = 0, g_u0 = 1 / 10, g_v0 = 0,
                      g_u1 = 1 / 5, g_v1 = 1\<rparr>) \<in> set (md_character_map (saved_metadata r))"
    by (simp add: md)
  from uv_bounds_after_rounding[OF c r m] r m
  show ?thesis
    by (intro exI[of _ r]) (simp add: md CELL_SIZE_def)
qed

text \<open>
  The claim as first stated fails: on a grid of 3000000 columns the single character \<open>A\<close>
  has \<open>u0 = 0\<close> and \<open>u1 = 16 / 48000000\<close>, which rounds to 0 as well, so \<open>u0 < u1\<close> does not hold.
\<close>

theorem uv_collapse_on_wide_grid:
  "map_sum id saved_metadata
     (fst (generate_sprite_sheet demo_env ''Sans'' 12 ''out'' ''A'' 3000000)) =
     Inr \<lparr>md_font_name = ''Sans'', md_font_size = 10, md_cell_width = 16, md_cell_height = 16,
          md_columns = 3000000, md_rows = 1, md_image_width = 48000000, md_image_height = 16,
          md_character_count = 1,
          md_character_map =
            [(CHR ''A'', \<lparr>g_index = 0, g_x = 0, g_y = 0, g_u0 = 0, g_v0 = 0,
                            g_u1 = 0, g_v1 = 1\<rparr>)]\<rparr> \<and>
   \<not> ((0::real) < 0)"
  using sheet_demo_A_wide by simp






text \<open>
  Claim C9. Every character of the set has an entry in \<open>character_map\<close>, whatever
  \<open>draw.text\<close> does: a run with any other drawing behaviour \<open>d\<close> completes as well and writes
  the same metadata. A character whose drawing raises adds a warning and nothing to the
  canvas, and the loop goes on: the canvas holds exactly the glyphs whose drawing
  succeeded, in order, and the warnings are those of the failed ones.
\<close>

theorem render_failure_keeps_metadata:
  assumes "fst (generate_sprite_sheet e font_name font_size output_dir character_set columns) = Inr r"
  shows "(\<forall>ch\<in>set character_set.
            \<exists>g. map_of (md_character_map (saved_metadata r)) ch = Some g) \<and>
         (\<exists>r'. fst (generate_sprite_sheet (e\<lparr>draw_text_fails := d\<rparr>) font_name font_size
                       output_dir character_set columns) = Inr r' \<and>
               saved_metadata r' = saved_metadata r) \<and>
         (\<exists>font_path fnt actual_size.
            fst (find_system_font e font_name) = Inr font_path \<and>
            fst (calculate_optimal_font_size e font_path font_size CELL_SIZE)
              = Inr (fnt, actual_size) \<and>
            im_drawn (saved_image r) = drawn_glyphs e fnt columns (enumerate 0 character_set) \<and>
            snd (generate_sprite_sheet e font_name font_size output_dir character_set columns) =
              fst (snd (find_system_font e font_name)) @
              snd (calculate_optimal_font_size e font_path font_size CELL_SIZE) @
              render_warnings e fnt columns (enumerate 0 character_set))"
proof (intro conjI ballI)
  have cols: "1 \<le> columns"
    by (rule generate_sprite_sheet_columns[OF assms])
  from generate_sprite_sheet_result[OF cols assms] obtain w h where
    cm: "md_character_map (saved_metadata r) =
               store_entries columns w h (enumerate 0 character_set) []"
    by auto
  fix ch assume "ch \<in> set character_set"
  from last_occurrence_exists[OF this] obtain i where
    "i < length character_set" "character_set ! i = ch"
    "ch \<notin> set (drop (Suc i) character_set)"
    by blast
  then have "map_of (store_entries columns w h (enumerate 0 character_set) []) ch =
               Some (cell_entry columns w h (int i))"
    using stored_last_occurrence[of i character_set columns w h "[]"] by simp
  then show "\<exists>g. map_of (md_character_map (saved_metadata r)) ch = Some g"
    by (simp add: cm)
next
  have cols: "1 \<le> columns"
    by (rule generate_sprite_sheet_columns[OF assms])
  from generate_sprite_sheet_metadata_draw[OF cols, where e = e and d = d
      and font_name = font_name and font_size = font_size and output_dir = output_dir
      and character_set = character_set] assms
  have "map_sum id saved_metadata
           (fst (generate_sprite_sheet (e\<lparr>draw_text_fails := d\<rparr>) font_name font_size
                   output_dir character_set columns)) = Inr (saved_metadata r)"
    by simp
  from map_sum_Inr_D[OF this]
  show "\<exists>r'. fst (generate_sprite_sheet (e\<lparr>draw_text_fails := d\<rparr>) font_name font_size
                       output_dir character_set columns) = Inr r' \<and>
               saved_metadata r' = saved_metadata r" .
next
  have cols: "1 \<le> columns"
    by (rule generate_sprite_sheet_columns[OF assms])
  from generate_sprite_sheet_result[OF cols assms]
  show "\<exists>font_path fnt actual_size.
            fst (find_system_font e font_name) = Inr font_path \<and>
            fst (calculate_optimal_font_size e font_path font_size CELL_SIZE)
              = Inr (fnt, actual_size) \<and>
            im_drawn (saved_image r) = drawn_glyphs e fnt columns (enumerate 0 character_set) \<and>
            snd (generate_sprite_sheet e font_name font_size output_dir character_set columns) =
              fst (snd (find_system_font e font_name)) @
              snd (calculate_optimal_font_size e font_path font_size CELL_SIZE) @
              render_warnings e fnt columns (enumerate 0 character_set)"
    by fastforce
qed

theorem render_failure_keeps_metadata_witness:
  "\<exists>r r'. fst (generate_sprite_sheet no_B_env ''Sans'' 12 ''out'' ''ABA'' 10) = Inr r \<and>
       fst (generate_sprite_sheet (no_B_env\<lparr>draw_text_fails := (\<lambda>f xy c. None)\<rparr>)
              ''Sans'' 12 ''out'' ''ABA'' 10) = Inr r' \<and>
       saved_metadata r' = saved_metadata r \<and>
       map_of (md_character_map (saved_metadata r)) CHR ''B'' =
         Some \<lparr>g_index = 1, g_x = 16, g_y = 0, g_u0 = 1 / 10, g_v0 = 0, g_u1 = 1 / 5, g_v1 = 1\<rparr> \<and>
       map_of (md_character_map (saved_metadata r)) CHR ''A'' =
         Some \<lparr>g_index = 2, g_x = 32, g_y = 0, g_u0 = 1 / 5, g_v0 = 0, g_u1 = 3 / 10, g_v1 = 1\<rparr> \<and>
       im_drawn (saved_image r) = [((8, 8), CHR ''A''), ((40, 8), CHR ''A'')] \<and>
       snd (generate_sprite_sheet no_B_env ''Sans'' 12 ''out'' ''ABA'' 10) =
         [WarnRender CHR ''B'' (LibError ''glyph not found'')]"
proof -
  from map_sum_Inr_D[OF sheet_no_B_ABA] obtain r where
    r: "fst (generate_sprite_sheet no_B_env ''Sans'' 12 ''out'' ''ABA'' 10) = Inr r"
    and md: "saved_metadata r =
      \<lparr>md_font_name = ''Sans'', md_font_size = 10, md_cell_width = 16, md_cell_height = 16,
          md_columns = 10, md_rows = 1, md_image_width = 160, md_image_height = 16,
          md_character_count = 3,
          md_character_map =
            [(CHR ''A'', \<lparr>g_index = 2, g_x = 32, g_y = 0, g_u0 = 1 / 5, g_v0 = 0,
                            g_u1 = 3 / 10, g_v1 = 1\<rparr>),
             (CHR ''B'', \<lparr>g_index = 1, g_x = 16, g_y = 0, g_u0 = 1 / 10, g_v0 = 0,
                            g_u1 = 1 / 5, g_v1 = 1\<rparr>)]\<rparr>"
    by blast
  note inst = render_failure_keeps_metadata[OF r, of "\<lambda>f xy c. None"]
  from inst obtain r' where
    r': "fst (generate_sprite_sheet (no_B_env\<lparr>draw_text_fails := (\<lambda>f xy c. None)\<rparr>)
              ''Sans'' 12 ''out'' ''ABA'' 10) = Inr r'" "saved_metadata r' = saved_metadata r"
    by blast
  have f: "find_system_font no_B_env ''Sans'' = find_system_font demo_env ''Sans''"
    and s: "\<And>fp. calculate_optimal_font_size no_B_env fp 12 CELL_SIZE =
               calculate_optimal_font_size demo_env fp 12 CELL_SIZE"
    unfolding no_B_env_draw by simp_all
  from inst obtain font_path fnt actual_size where
    a1: "fst (find_system_font no_B_env ''Sans'') = Inr font_path"
    and a2: "fst (calculate_optimal_font_size no_B_env font_path 12 CELL_SIZE)
               = Inr (fnt, actual_size)"
    and drawn: "im_drawn (saved_image r) = drawn_glyphs no_B_env fnt 10 (enumerate 0 ''ABA'')"
    and out: "snd (generate_sprite_sheet no_B_env ''Sans'' 12 ''out'' ''ABA'' 10) =
              fst (snd (find_system_font no_B_env ''Sans'')) @
              snd (calculate_optimal_font_size no_B_env font_path 12 CELL_SIZE) @
              render_warnings no_B_env fnt 10 (enumerate 0 ''ABA'')"
    by blast
  have fp: "font_path = PathStr dejavu_path"
    using a1 by (simp add: f find_Sans_demo)
  have fnt: "fnt = FreeTypeFont dejavu_path 10"
    using a2 by (simp add: s fp fitter_demo_12)
  have "drawn_glyphs no_B_env fnt 10 (enumerate 0 ''ABA'') =
          [((8, 8), CHR ''A''), ((40, 8), CHR ''A'')]"
    by (simp add: drawn_glyphs_def cell_center_def CELL_SIZE_def no_B_env_def)
  moreover have "render_warnings no_B_env fnt 10 (enumerate 0 ''ABA'') =
          [WarnRender CHR ''B'' (LibError ''glyph not found'')]"
    by (simp add: render_warnings_def cell_center_def CELL_SIZE_def no_B_env_def)
  ultimately show ?thesis
    using r r' md drawn out
    by (intro exI[of _ r] exI[of _ r']) (simp add: f s fp find_Sans_demo fitter_demo_12)
qed

text \<open>
  Claim C10. The \<open>character_count\<close> field is the length of the input character sequence,
  duplicates included, while \<open>character_map\<close> has one entry per distinct character; so when
  the set contains a duplicate, \<open>character_count\<close> is strictly greater than the number of
  entries. The default character set is such a set: it has 96 characters, \<open>*\<close> twice.
\<close>

theorem character_count_counts_duplicates:
  assumes "fst (generate_sprite_sheet e font_name font_size output_dir character_set columns) = Inr r"
  shows "md_character_count (saved_metadata r) = int (length character_set) \<and>
         length (md_character_map (saved_metadata r)) = card (set character_set) \<and>
         (\<not> distinct character_set \<longrightarrow>
            int (length (md_character_map (saved_metadata r)))
              < md_character_count (saved_metadata r))"
proof -
  have cols: "1 \<le> columns"
    by (rule generate_sprite_sheet_columns[OF assms])
  from generate_sprite_sheet_result[OF cols assms] obtain w h where
    count: "md_character_count (saved_metadata r) = int (length character_set)"
    and cm: "md_character_map (saved_metadata r) =
               store_entries columns w h (enumerate 0 character_set) []"
    by auto
  have len: "length (md_character_map (saved_metadata r)) = card (set character_set)"
    by (simp add: cm stored_length)
  have "card (set character_set) < length character_set" if "\<not> distinct character_set"
    using that card_length[of character_set] card_distinct[of character_set] by linarith
  with count len show ?thesis by simp
qed

theorem character_count_counts_duplicates_witness:
  "\<not> distinct DEFAULT_CHARACTER_SET \<and>
   (\<exists>r. fst (generate_sprite_sheet demo_env ''Sans'' 12 ''out'' DEFAULT_CHARACTER_SET 10) = Inr r \<and>
        md_character_count (saved_metadata r) = 96 \<and>
        int (length (md_character_map (saved_metadata r))) < 96)"
proof
  show rep: "\<not> distinct DEFAULT_CHARACTER_SET"
    by (rule DEFAULT_CHARACTER_SET_repeats)
  have "\<exists>r. fst (generate_sprite_sheet demo_env ''Sans'' 12 ''out'' DEFAULT_CHARACTER_SET 10) = Inr r"
    using generate_sprite_sheet_demo[of 10 "''out''" DEFAULT_CHARACTER_SET]
    by (cases "fst (generate_sprite_sheet demo_env ''Sans'' 12 ''out'' DEFAULT_CHARACTER_SET 10)")
      simp_all
  then obtain r where
    r: "fst (generate_sprite_sheet demo_env ''Sans'' 12 ''out'' DEFAULT_CHARACTER_SET 10) = Inr r"
    by blast
  from character_count_counts_duplicates[OF r] rep r
  show "\<exists>r. fst (generate_sprite_sheet demo_env ''Sans'' 12 ''out'' DEFAULT_CHARACTER_SET 10) = Inr r \<and>
        md_character_count (saved_metadata r) = 96 \<and>
        int (length (md_character_map (saved_metadata r))) < 96"
    by (intro exI[of _ r]) (simp add: length_DEFAULT_CHARACTER_SET)
qed

end
